theory Spec2Isabelle
  imports Complex_Main "HOL-Library.Sublist"
begin

section \<open>The chat-completion adapter \<^verbatim>\<open>ThirdPartyOpenAI\<close>\<close>

text \<open>
  A shallow embedding of \<^verbatim>\<open>tradingagents/llm_adapters/third_party_openai.py\<close>: the
  message sanitizer, the construction of the adapter with its two streaming flags, the
  direct transport path with its decoder of server-sent events, the replay measurement of
  token usage, and the dispatch of \<^verbatim>\<open>_generate\<close> between the high-level path of
  the wrapped class and the direct path.  Network calls are answered by an explicit
  upstream, exceptions are values, and the mutable attribute \<^verbatim>\<open>_last_api_usage\<close>
  together with the list of network attempts is threaded through as a state.
\<close>

subsection \<open>Python strings\<close>

text \<open>
  A Python \<^verbatim>\<open>str\<close> is a sequence of Unicode code points, so it is a list of
  naturals here; \<open>u\<close> embeds an ASCII literal.  \<open>needle in hay\<close> on strings is
  \<^const>\<open>sublist\<close>, \<open>startswith\<close> is \<^const>\<open>prefix\<close>.
\<close>

type_synonym ustr = "nat list"

definition u :: "string \<Rightarrow> ustr" where
  "u s = map of_char s"

text \<open>The code points for which \<^verbatim>\<open>str.isspace\<close> holds; \<^verbatim>\<open>str.strip()\<close> removes
  them at both ends, and \<^verbatim>\<open>\s\<close> in a \<^verbatim>\<open>str\<close> pattern matches them.\<close>

definition py_isspace :: "nat \<Rightarrow> bool" where
  "py_isspace c \<longleftrightarrow>
     (9 \<le> c \<and> c \<le> 13) \<or> (28 \<le> c \<and> c \<le> 32) \<or> c = 133 \<or> c = 160 \<or> c = 5760 \<or>
     (8192 \<le> c \<and> c \<le> 8202) \<or> c = 8232 \<or> c = 8233 \<or> c = 8239 \<or> c = 8287 \<or> c = 12288"

definition py_strip :: "ustr \<Rightarrow> ustr" where
  "py_strip s = rev (dropWhile py_isspace (rev (dropWhile py_isspace s)))"

text \<open>\<^verbatim>\<open>s.replace(c, '')\<close> and \<^verbatim>\<open>s.replace(a, b)\<close> for single characters, and
  \<^verbatim>\<open>s.replace('\r\n', '\n')\<close>, which scans from the left and does not overlap.\<close>

definition remove_char :: "nat \<Rightarrow> ustr \<Rightarrow> ustr" where
  "remove_char c s = filter (\<lambda>x. x \<noteq> c) s"

definition replace_char :: "nat \<Rightarrow> nat \<Rightarrow> ustr \<Rightarrow> ustr" where
  "replace_char a b s = map (\<lambda>x. if x = a then b else x) s"

fun replace_crlf :: "ustr \<Rightarrow> ustr" where
  "replace_crlf (x # y # xs) =
     (if x = 13 \<and> y = 10 then 10 # replace_crlf xs else x # replace_crlf (y # xs))"
| "replace_crlf xs = xs"

text \<open>
  \<^verbatim>\<open>re.sub(r'[P]{n,}', rep, s)\<close> for a character class \<open>P\<close> and \<open>n \<ge> 1\<close>: the
  greedy quantifier matches the whole maximal run of \<open>P\<close> characters that starts at the
  current position; a run of at least \<open>n\<close> characters is replaced by \<open>rep\<close>, a shorter
  one matches nowhere and is copied.
\<close>

function sub_runs :: "(nat \<Rightarrow> bool) \<Rightarrow> nat \<Rightarrow> ustr \<Rightarrow> ustr \<Rightarrow> ustr" where
  "sub_runs P n rep [] = []"
| "sub_runs P n rep (x # xs) =
     (if P x
      then (let run = x # takeWhile P xs
            in (if n \<le> length run then rep else run) @ sub_runs P n rep (dropWhile P xs))
      else x # sub_runs P n rep xs)"
  by pat_completeness auto
termination
  by (relation "measure (\<lambda>(P, n, rep, s). length s)")
     (auto simp: length_dropWhile_le le_imp_less_Suc)

text \<open>Decimal rendering of a number, as an f-string prints a status code.\<close>

fun show_nat :: "nat \<Rightarrow> ustr" where
  "show_nat n = (if n < 10 then [48 + n] else show_nat (n div 10) @ [48 + n mod 10])"

declare show_nat.simps [simp del]

text \<open>\<^verbatim>\<open>str.lower()\<close>, written out for the letters A to Z.  Outside ASCII the method
  also maps capital letters; none of them yields a letter of the text searched for below,
  and they are left as they are.\<close>

definition py_lower :: "ustr \<Rightarrow> ustr" where
  "py_lower s = map (\<lambda>c. if 65 \<le> c \<and> c \<le> 90 then c + 32 else c) s"

subsection \<open>Message sanitizer\<close>

text \<open>
  \<^verbatim>\<open>_clean_message_content\<close> (light cleaning) for a \<^verbatim>\<open>str\<close> argument.  Every
  step is a total operation on strings (\<^verbatim>\<open>replace\<close>, \<^verbatim>\<open>re.sub\<close>,
  \<^verbatim>\<open>strip\<close>, \<^verbatim>\<open>len\<close>, slicing), so the function has no failing branch.
  8203 is the zero-width space, 65279 the byte-order mark, 13 and 10 are CR and LF.
\<close>

definition is_newline :: "nat \<Rightarrow> bool" where
  "is_newline c \<longleftrightarrow> c = 10"

definition is_blank :: "nat \<Rightarrow> bool" where
  "is_blank c \<longleftrightarrow> c = 32 \<or> c = 9"

text \<open>The default content (eight CJK characters, "please provide analysis advice.") and
  the truncation marker \<^verbatim>\<open>...(\<close> seven CJK characters \<^verbatim>\<open>)\<close>.\<close>

definition default_content :: ustr where
  "default_content = [35831, 25552, 20379, 20998, 26512, 24314, 35758, 12290]"

definition truncation_mark :: ustr where
  "truncation_mark = u ''...('' @ [20869, 23481, 36807, 38271, 24050, 25130, 26029] @ u '')''"

definition max_length :: nat where
  "max_length = 8000"

definition clean_message_content :: "ustr \<Rightarrow> ustr" where
  "clean_message_content content =
     (let c1 = remove_char 8203 content;
          c2 = remove_char 65279 c1;
          c3 = replace_char 13 10 (replace_crlf c2);
          c4 = sub_runs is_newline 3 [10, 10] c3;
          c5 = sub_runs is_blank 3 [32, 32] c4;
          c6 = py_strip c5;
          c7 = (if c6 = [] then default_content else c6)
      in if max_length < length c7 then take max_length c7 @ truncation_mark else c7)"

text \<open>
  \<^verbatim>\<open>_aggressive_clean_messages\<close> works on the request's message dictionaries, each
  with the keys \<^verbatim>\<open>role\<close> and \<^verbatim>\<open>content\<close>.
\<close>

record api_message =
  role :: ustr
  content :: ustr

text \<open>The class of characters kept by the first substitution: two CJK ranges,
  printable ASCII and the newline.\<close>

definition safe_char :: "nat \<Rightarrow> bool" where
  "safe_char c \<longleftrightarrow>
     (19968 \<le> c \<and> c \<le> 40959) \<or> (13312 \<le> c \<and> c \<le> 19903) \<or> (32 \<le> c \<and> c \<le> 126) \<or> c = 10"

text \<open>
  \<^verbatim>\<open>re.sub(d + '([^c]+)' + d, r'\1', s)\<close> for a delimiter \<open>d\<close> made of the
  character \<open>c\<close> (bold, italics, code): at a position where \<open>d\<close> starts, the group
  takes the maximal run of characters other than \<open>c\<close>, which must be non-empty and be
  followed by \<open>d\<close>; giving characters back cannot help, since the next character would
  not be \<open>c\<close>.  A match is replaced by the group.
\<close>

function unwrap :: "ustr \<Rightarrow> nat \<Rightarrow> ustr \<Rightarrow> ustr" where
  "unwrap d c [] = []"
| "unwrap d c (x # xs) =
     (if prefix d (x # xs) \<and> takeWhile (\<lambda>y. y \<noteq> c) (drop (length d) (x # xs)) \<noteq> [] \<and>
         prefix d (dropWhile (\<lambda>y. y \<noteq> c) (drop (length d) (x # xs)))
      then takeWhile (\<lambda>y. y \<noteq> c) (drop (length d) (x # xs)) @
           unwrap d c (drop (length d) (dropWhile (\<lambda>y. y \<noteq> c) (drop (length d) (x # xs))))
      else x # unwrap d c xs)"
  by pat_completeness auto
termination
proof (relation "measure (\<lambda>(d, c, s). length s)")
  show "wf (measure (\<lambda>(d, c, s). length s))" by simp
next
  fix d :: ustr and c x :: nat and xs :: ustr
  assume "prefix d (x # xs) \<and> takeWhile (\<lambda>y. y \<noteq> c) (drop (length d) (x # xs)) \<noteq> [] \<and>
          prefix d (dropWhile (\<lambda>y. y \<noteq> c) (drop (length d) (x # xs)))"
  then have nonempty: "takeWhile (\<lambda>y. y \<noteq> c) (drop (length d) (x # xs)) \<noteq> []" by simp
  let ?t = "drop (length d) (x # xs)"
  have "length (takeWhile (\<lambda>y. y \<noteq> c) ?t) + length (dropWhile (\<lambda>y. y \<noteq> c) ?t) = length ?t"
    by (metis length_append takeWhile_dropWhile_id)
  moreover have "0 < length (takeWhile (\<lambda>y. y \<noteq> c) ?t)"
    using nonempty by (metis length_greater_0_conv)
  moreover have "length ?t \<le> length (x # xs)"
    by simp
  ultimately have "length (dropWhile (\<lambda>y. y \<noteq> c) ?t) < length (x # xs)"
    by linarith
  then show "((d, c, drop (length d) (dropWhile (\<lambda>y. y \<noteq> c) (drop (length d) (x # xs)))),
              (d, c, x # xs)) \<in> measure (\<lambda>(d, c, s). length s)"
    by simp
next
  fix d :: ustr and c x :: nat and xs :: ustr
  show "((d, c, xs), (d, c, x # xs)) \<in> measure (\<lambda>(d, c, s). length s)"
    by simp
qed

text \<open>\<^verbatim>\<open>re.sub(r'#+\s*', '', s)\<close>: a run of \<^verbatim>\<open>#\<close> (35) and the white space
  after it are removed.\<close>

function strip_headings :: "ustr \<Rightarrow> ustr" where
  "strip_headings [] = []"
| "strip_headings (x # xs) =
     (if x = 35 then strip_headings (dropWhile py_isspace (dropWhile (\<lambda>y. y = 35) xs))
      else x # strip_headings xs)"
  by pat_completeness auto
termination
proof (relation "measure length")
  show "wf (measure length)" by simp
next
  fix x :: nat and xs :: ustr
  have "length (dropWhile py_isspace (dropWhile (\<lambda>y. y = 35) xs)) \<le> length xs"
    by (meson length_dropWhile_le order_trans)
  then show "(dropWhile py_isspace (dropWhile (\<lambda>y. y = 35) xs), x # xs) \<in> measure length"
    by simp
next
  fix x :: nat and xs :: ustr
  show "(xs, x # xs) \<in> measure length" by simp
qed

definition is_stop_mark :: "nat \<Rightarrow> bool" where
  "is_stop_mark c \<longleftrightarrow> c = 12290 \<or> c = 65281 \<or> c = 65311"

definition is_comma_mark :: "nat \<Rightarrow> bool" where
  "is_comma_mark c \<longleftrightarrow> c = 65292 \<or> c = 12289 \<or> c = 65307 \<or> c = 65306"

definition aggressive_clean_content :: "ustr \<Rightarrow> ustr \<Rightarrow> ustr" where
  "aggressive_clean_content r c =
     (let c1 = filter safe_char c;
          c2 = unwrap (u ''**'') 42 c1;
          c3 = unwrap (u ''*'') 42 c2;
          c4 = unwrap (u ''`'') 96 c3;
          c5 = strip_headings c4;
          c6 = sub_runs is_stop_mark 2 [12290] c5;
          c7 = sub_runs is_comma_mark 2 [65292] c6;
          c8 = py_strip c7;
          c9 = (if c8 = [] then (if r = u ''user'' then [35831, 20998, 26512] else [22909, 30340])
                else c8)
      in if 1000 < length c9 then take 1000 c9 @ u ''...'' else c9)"

definition aggressive_clean_messages :: "api_message list \<Rightarrow> api_message list" where
  "aggressive_clean_messages messages =
     map (\<lambda>msg. \<lparr>role = role msg, content = aggressive_clean_content (role msg) (content msg)\<rparr>)
       messages"

subsection \<open>Exceptions and JSON values\<close>

text \<open>
  Exceptions are values.  \<open>Exception m\<close> is an exception whose text \<^verbatim>\<open>str(e)\<close> is
  \<open>m\<close>: the ones the adapter raises itself and the ones of the wrapped high-level
  path, of which \<^verbatim>\<open>_generate\<close> reads the text only.  The built-in errors raised by
  operations on decoded JSON carry texts fixed by the interpreter (\<^verbatim>\<open>KeyError(0)\<close>
  prints as \<^verbatim>\<open>0\<close>); the text of a \<^verbatim>\<open>UnicodeDecodeError\<close> holds a byte position
  and is kept.  \<^verbatim>\<open>json.loads\<close> raises \<^verbatim>\<open>JSONDecodeError\<close> on a text that is not
  JSON, \<^verbatim>\<open>RecursionError\<close> on one nested too deeply and a plain \<^verbatim>\<open>ValueError\<close>
  on an integer with too many digits.  \<open>ValidationError\<close> is raised by the message
  class of the wrapped library for a content outside its declared type.  The last three
  are the exceptions of the \<^verbatim>\<open>requests\<close> library.
\<close>

datatype exn =
    Exception ustr
  | UnicodeDecodeError ustr
  | JSONDecodeError ustr
  | RecursionError
  | ValueError ustr
  | ValidationError ustr
  | TypeError
  | AttributeError
  | KeyError
  | IndexError
  | RequestsTimeout
  | RequestsConnectionError
  | RequestException ustr

text \<open>
  What \<^verbatim>\<open>json.loads\<close> and \<^verbatim>\<open>response.json()\<close> return.  An object is a Python
  dictionary, here an association list read with \<^const>\<open>map_of\<close>.  Numbers with a
  fraction or an exponent (Python floats) are left out: the adapter computes with token
  counts and reads text.
\<close>

datatype json =
    JNull
  | JBool bool
  | JInt int
  | JStr ustr
  | JArr "json list"
  | JObj "(ustr \<times> json) list"

text \<open>\<^verbatim>\<open>k in v\<close> for a string \<open>k\<close>: a key test on a dictionary, membership in a list,
  a substring test on a string, a \<^verbatim>\<open>TypeError\<close> otherwise.\<close>

fun py_contains :: "ustr \<Rightarrow> json \<Rightarrow> exn + bool" where
  "py_contains k (JObj kvs) = Inr (k \<in> set (map fst kvs))"
| "py_contains k (JArr xs) = Inr (JStr k \<in> set xs)"
| "py_contains k (JStr s) = Inr (sublist k s)"
| "py_contains k v = Inl TypeError"

text \<open>\<^verbatim>\<open>v[k]\<close> for a string \<open>k\<close>, and \<^verbatim>\<open>v[0]\<close>.\<close>

fun py_item :: "json \<Rightarrow> ustr \<Rightarrow> exn + json" where
  "py_item (JObj kvs) k = (case map_of kvs k of None \<Rightarrow> Inl KeyError | Some x \<Rightarrow> Inr x)"
| "py_item v k = Inl TypeError"

fun py_first :: "json \<Rightarrow> exn + json" where
  "py_first (JArr []) = Inl IndexError"
| "py_first (JArr (x # xs)) = Inr x"
| "py_first (JStr []) = Inl IndexError"
| "py_first (JStr (c # cs)) = Inr (JStr [c])"
| "py_first (JObj kvs) = Inl KeyError"
| "py_first v = Inl TypeError"

fun py_len :: "json \<Rightarrow> exn + nat" where
  "py_len (JObj kvs) = Inr (length kvs)"
| "py_len (JArr xs) = Inr (length xs)"
| "py_len (JStr s) = Inr (length s)"
| "py_len v = Inl TypeError"

text \<open>\<^verbatim>\<open>v.get(k, d)\<close>: only a dictionary has the method.\<close>

fun py_get :: "json \<Rightarrow> ustr \<Rightarrow> json \<Rightarrow> exn + json" where
  "py_get (JObj kvs) k d = (case map_of kvs k of None \<Rightarrow> Inr d | Some x \<Rightarrow> Inr x)"
| "py_get v k d = Inl AttributeError"

fun py_truthy :: "json \<Rightarrow> bool" where
  "py_truthy JNull = False"
| "py_truthy (JBool b) = b"
| "py_truthy (JInt i) = (i \<noteq> 0)"
| "py_truthy (JStr s) = (s \<noteq> [])"
| "py_truthy (JArr xs) = (xs \<noteq> [])"
| "py_truthy (JObj kvs) = (kvs \<noteq> [])"

text \<open>The integer a value stands for in arithmetic: \<^verbatim>\<open>bool\<close> is a subclass of
  \<^verbatim>\<open>int\<close>; on anything else \<^verbatim>\<open>-\<close> raises \<^verbatim>\<open>TypeError\<close>.\<close>

fun py_int :: "json \<Rightarrow> exn + int" where
  "py_int (JInt i) = Inr i"
| "py_int (JBool b) = Inr (if b then 1 else 0)"
| "py_int v = Inl TypeError"

subsection \<open>Stream decoder\<close>

text \<open>
  One item of \<^verbatim>\<open>response.iter_lines()\<close>: a line of bytes, given by its UTF-8
  decoding, or \<open>BadUtf8 m\<close> for a line on which \<^verbatim>\<open>line.decode('utf-8')\<close> raises,
  or a failure of the transport while the body is read.
\<close>

datatype raw_line =
    Line ustr
  | BadUtf8 ustr
  | StreamError exn

text \<open>
  The body of the \<^verbatim>\<open>try\<close> for one event whose payload parsed: the text that the
  chunk adds to \<^verbatim>\<open>full_content\<close>.  A \<^verbatim>\<open>usage\<close> key of the chunk is not read.
\<close>

definition chunk_text :: "json \<Rightarrow> exn + ustr" where
  "chunk_text chunk_data =
     (case py_contains (u ''choices'') chunk_data of
        Inl e \<Rightarrow> Inl e
      | Inr False \<Rightarrow> Inr []
      | Inr True \<Rightarrow>
          (case py_item chunk_data (u ''choices'') of
             Inl e \<Rightarrow> Inl e
           | Inr choices \<Rightarrow>
               (case py_len choices of
                  Inl e \<Rightarrow> Inl e
                | Inr n \<Rightarrow>
                    if 0 < n then
                      (case py_first choices of
                         Inl e \<Rightarrow> Inl e
                       | Inr choice \<Rightarrow>
                           (case py_get choice (u ''delta'') (JObj []) of
                              Inl e \<Rightarrow> Inl e
                            | Inr delta \<Rightarrow>
                                (case py_get delta (u ''content'') (JStr []) of
                                   Inl e \<Rightarrow> Inl e
                                 | Inr c \<Rightarrow>
                                     if py_truthy c
                                     then (case c of JStr s \<Rightarrow> Inr s | _ \<Rightarrow> Inl TypeError)
                                     else Inr [])))
                    else Inr [])))"

text \<open>The one exception that the \<^verbatim>\<open>except\<close> clause of line 774 catches.\<close>

fun json_decode_error :: "exn \<Rightarrow> bool" where
  "json_decode_error (JSONDecodeError m) = True"
| "json_decode_error e = False"

text \<open>
  The loop over the lines (lines 757 to 775), with \<^verbatim>\<open>json.loads\<close> as the parameter
  \<open>loads\<close> (\<open>Inl e\<close> when it raises \<open>e\<close>).  The result is the accumulated text
  together with the payloads for which the warning of line 775 was logged; an exception
  other than \<^verbatim>\<open>JSONDecodeError\<close> leaves the loop, whether \<^verbatim>\<open>json.loads\<close> or the
  reading of the chunk raises it.
\<close>

fun decode_lines ::
  "(ustr \<Rightarrow> exn + json) \<Rightarrow> raw_line list \<Rightarrow> ustr \<Rightarrow> ustr list \<Rightarrow> exn + (ustr \<times> ustr list)"
where
  "decode_lines loads [] full_content warned = Inr (full_content, warned)"
| "decode_lines loads (StreamError e # ls) full_content warned = Inl e"
| "decode_lines loads (BadUtf8 m # ls) full_content warned = Inl (UnicodeDecodeError m)"
| "decode_lines loads (Line decoded_line # ls) full_content warned =
     (if decoded_line = [] then decode_lines loads ls full_content warned
      else if prefix (u ''data: '') decoded_line then
        (if drop 6 decoded_line = u ''[DONE]'' then Inr (full_content, warned)
         else
           (case loads (drop 6 decoded_line) of
              Inl e \<Rightarrow>
                if json_decode_error e
                then decode_lines loads ls full_content (warned @ [drop 6 decoded_line])
                else Inl e
            | Inr chunk_data \<Rightarrow>
                (case chunk_text chunk_data of
                   Inl e \<Rightarrow> Inl e
                 | Inr t \<Rightarrow> decode_lines loads ls (full_content @ t) warned)))
      else decode_lines loads ls full_content warned)"
subsection \<open>Messages, requests and the upstream\<close>

text \<open>
  A message of the caller: every \<^verbatim>\<open>BaseMessage\<close> has a \<^verbatim>\<open>type\<close>; a
  \<^verbatim>\<open>role\<close> attribute exists on some classes only.  The content is text.
\<close>

record message =
  msg_type :: ustr
  msg_role :: "ustr option"
  msg_content :: ustr

text \<open>A keyword option is a Python \<^verbatim>\<open>bool\<close> or any other object.\<close>

datatype 'v optval = PBool bool | PObj 'v

type_synonym 'v kwargs = "(ustr \<times> 'v optval) list"

text \<open>\<^verbatim>\<open>d.pop(k, None)\<close> as far as the dictionary is concerned.\<close>

definition pop_key :: "ustr \<Rightarrow> 'v kwargs \<Rightarrow> 'v kwargs" where
  "pop_key k kw = filter (\<lambda>(k', v). k' \<noteq> k) kw"

text \<open>The JSON body of an outbound request, a dictionary literal of the source.\<close>

datatype reqval =
    RStr ustr
  | RMessages "api_message list"
  | RNum real
  | RInt int
  | RBool bool

type_synonym request = "(ustr \<times> reqval) list"

record http_post =
  url :: ustr
  headers :: "(ustr \<times> ustr) list"
  payload :: request
  timeout :: int
  stream_body :: bool

text \<open>
  What \<^verbatim>\<open>requests.post\<close> returns: the status code, \<^verbatim>\<open>response.text\<close>, the
  result of \<^verbatim>\<open>response.json()\<close> (\<open>Inl e\<close> when it raises \<open>e\<close>), and the
  lines of a streamed body.
\<close>

record response =
  status_code :: nat
  response_text :: ustr
  body :: "exn + json"
  iter_lines :: "raw_line list"

text \<open>The content of a message of the wrapped library: a text, or a list of parts,
  each a text or a dictionary.\<close>

datatype answer_content = Text ustr | Parts "json list"

fun content_len :: "answer_content \<Rightarrow> nat" where
  "content_len (Text s) = length s"
| "content_len (Parts xs) = length xs"

text \<open>The \<^verbatim>\<open>ChatResult\<close> handed back: the content of its one generation, and
  \<^verbatim>\<open>llm_output\<close> (\<open>JNull\<close> for \<^verbatim>\<open>None\<close>).\<close>

record chat_result =
  result_content :: answer_content
  llm_output :: json

text \<open>
  A network attempt is a request that the client of the wrapped class sends for a call
  of its \<^verbatim>\<open>_generate\<close> (messages, stop sequences, keyword options), or a
  \<^verbatim>\<open>requests.post\<close> of the adapter.  The wrapped client repeats a failed request
  on its own, so one call of the high-level path stands in the log once for every
  request it sent.
\<close>

datatype 'v attempt =
    HighLevel "message list" "ustr list option" "'v kwargs"
  | HttpPost http_post

text \<open>
  The upstream and the rest of the environment.  The answer to an attempt is looked up
  by the number of attempts made before it.  Since the adapter is deterministic, every
  upstream whose answers depend on the requests sent so far behaves on a given call like
  one of these.  A call of the high-level path that starts after \<open>n\<close> attempts ends
  with a result or raises an exception, given by its text (\<open>Inl m\<close>), after the wrapped
  client has sent its request and repeated it as often as the upstream's failures made
  it (\<open>high_level_retries w n\<close> times, were there no limit).  \<open>json_loads\<close> is
  \<^verbatim>\<open>json.loads\<close> (\<open>Inl e\<close> when it raises \<open>e\<close>), \<open>validation_text\<close> the text of the
  error that the message class raises for a content it refuses, \<open>env_api_key\<close> the
  environment variable \<^verbatim>\<open>OPENAI_API_KEY\<close>, \<open>token_tracking_enabled\<close> the module flag.
\<close>

record world =
  json_loads :: "ustr \<Rightarrow> exn + json"
  high_level_answer :: "nat \<Rightarrow> ustr + chat_result"
  high_level_retries :: "nat \<Rightarrow> nat"
  post_answer :: "nat \<Rightarrow> exn + response"
  validation_text :: "json \<Rightarrow> ustr"
  env_api_key :: "ustr option"
  token_tracking_enabled :: bool

text \<open>The dictionary stored in \<^verbatim>\<open>_last_api_usage\<close>: always these three keys.\<close>

record usage =
  prompt_tokens :: json
  completion_tokens :: json
  total_tokens :: json

text \<open>The mutable part: the attempts made so far (oldest first), the attribute
  \<^verbatim>\<open>_last_api_usage\<close>, and the token figures handed to the tracker.\<close>

record 'v state =
  attempts :: "'v attempt list"
  last_api_usage :: "usage option"
  ledger :: "(json \<times> json) list"

text \<open>The attributes of the adapter that the code reads, and \<open>max_retries\<close>, which
  the client of the wrapped class reads: the number of times it repeats a failed
  request at most.  \<open>model_attr\<close> is the attribute \<^verbatim>\<open>model\<close>, which the wrapped class
  may or may not have.\<close>

record 'v adapter =
  model_name :: ustr
  model_attr :: "ustr option"
  user_defined_model :: "ustr option"
  openai_api_key :: "ustr option"
  openai_api_base :: "ustr option"
  temperature :: real
  max_tokens :: "int option"
  request_timeout :: int
  max_retries :: nat
  session_id :: "ustr option"
  streaming :: bool
  user_wants_streaming :: bool
  user_stream_setting :: bool
  parent_kwargs :: "'v kwargs"

definition requests_post :: "world \<Rightarrow> 'v state \<Rightarrow> http_post \<Rightarrow> (exn + response) \<times> 'v state" where
  "requests_post w st rq =
     (post_answer w (length (attempts st)), st\<lparr>attempts := attempts st @ [HttpPost rq]\<rparr>)"

text \<open>
  \<^verbatim>\<open>super()._generate\<close>, the call of the high-level path: the wrapped client sends
  its request, repeats it at most \<open>max_retries\<close> times, and the call returns the
  result or raises.
\<close>

definition super_generate ::
  "world \<Rightarrow> 'v adapter \<Rightarrow> 'v state \<Rightarrow> message list \<Rightarrow> ustr list option \<Rightarrow> 'v kwargs \<Rightarrow>
   (exn + chat_result) \<times> 'v state"
where
  "super_generate w self st msgs stop kw =
     (case high_level_answer w (length (attempts st)) of
        Inl m \<Rightarrow> Inl (Exception m)
      | Inr result \<Rightarrow> Inr result,
      st\<lparr>attempts := attempts st @
           replicate (Suc (min (high_level_retries w (length (attempts st))) (max_retries self)))
             (HighLevel msgs stop kw)\<rparr>)"

subsection \<open>Reading the adapter's configuration\<close>

definition default_base_url :: ustr where
  "default_base_url = u ''https://llm.submodel.ai/v1''"

text \<open>\<^verbatim>\<open>_get_api_key\<close>: the first non-empty key among the attribute and the
  environment variable; \<open>None\<close> stands for the \<^verbatim>\<open>ValueError\<close> it raises
  otherwise.  \<^verbatim>\<open>_get_base_url\<close> never fails.\<close>

definition get_api_key :: "world \<Rightarrow> 'v adapter \<Rightarrow> ustr option" where
  "get_api_key w self =
     (case openai_api_key self of
        Some k \<Rightarrow> if k \<noteq> [] then Some k
                  else (case env_api_key w of Some k' \<Rightarrow> if k' \<noteq> [] then Some k' else None
                        | None \<Rightarrow> None)
      | None \<Rightarrow> (case env_api_key w of Some k' \<Rightarrow> if k' \<noteq> [] then Some k' else None
                 | None \<Rightarrow> None))"

definition get_base_url :: "'v adapter \<Rightarrow> ustr" where
  "get_base_url self =
     (case openai_api_base self of
        Some b \<Rightarrow> if b \<noteq> [] then b else default_base_url
      | None \<Rightarrow> default_base_url)"

text \<open>\<^verbatim>\<open>getattr(self, 'model', getattr(self, 'model_name', 'gpt-3.5-turbo'))\<close>\<close>

definition model_or_name :: "'v adapter \<Rightarrow> ustr" where
  "model_or_name self = (case model_attr self of Some m \<Rightarrow> m | None \<Rightarrow> model_name self)"

subsection \<open>Usage accounting\<close>

text \<open>
  \<^verbatim>\<open>max(1, int(len(text) * 0.75))\<close>: 0.75 is a binary fraction, so the floating
  point product is exact for every length below \<open>2\<^sup>5\<^sup>1\<close> (no string in memory is that
  long), and \<^verbatim>\<open>int\<close> cuts it down to the integer part of three quarters of the
  length.
\<close>

definition estimate_tokens :: "nat \<Rightarrow> int" where
  "estimate_tokens n = max 1 (int ((3 * n) div 4))"

fun join_space :: "ustr list \<Rightarrow> ustr" where
  "join_space [] = []"
| "join_space [x] = x"
| "join_space (x # y # ys) = x @ [32] @ join_space (y # ys)"

text \<open>The estimate of lines 791 to 799, and again of lines 831 to 838, from the
  length of the joined input texts and the length \<^verbatim>\<open>len\<close> of the answer's content.\<close>

definition estimated_usage :: "api_message list \<Rightarrow> nat \<Rightarrow> usage" where
  "estimated_usage api_messages content_length =
     (let input_tokens = estimate_tokens (length (join_space (map content api_messages)));
          output_tokens = estimate_tokens content_length
      in \<lparr>prompt_tokens = JInt input_tokens, completion_tokens = JInt output_tokens,
          total_tokens = JInt (input_tokens + output_tokens)\<rparr>)"

text \<open>The two measurement requests differ in their messages and their timeout.\<close>

definition counting_request :: "'v adapter \<Rightarrow> api_message list \<Rightarrow> request" where
  "counting_request self msgs =
     [(u ''model'', RStr (model_or_name self)), (u ''messages'', RMessages msgs),
      (u ''temperature'', RNum (1 / 10)), (u ''max_tokens'', RInt 1), (u ''stream'', RBool False)]"

text \<open>
  \<^verbatim>\<open>_get_input_only_tokens\<close>: one request with the original messages; the result
  is \<^verbatim>\<open>data['usage']\<close> as it came, or \<^verbatim>\<open>None\<close>.  Every exception is caught.
\<close>

definition get_input_only_tokens ::
  "world \<Rightarrow> 'v adapter \<Rightarrow> 'v state \<Rightarrow> api_message list \<Rightarrow> (ustr \<times> ustr) list \<Rightarrow> ustr \<Rightarrow> int \<Rightarrow>
   json option \<times> 'v state"
where
  "get_input_only_tokens w self st original_messages hdrs api_url req_timeout =
     (case requests_post w st
             \<lparr>url = api_url, headers = hdrs, payload = counting_request self original_messages,
              timeout = min 10 req_timeout, stream_body = False\<rparr> of
        (Inl e, st') \<Rightarrow> (None, st')
      | (Inr r, st') \<Rightarrow>
          (if status_code r = 200 then
             (case body r of
                Inl e \<Rightarrow> None
              | Inr data \<Rightarrow>
                  (case py_contains (u ''usage'') data of
                     Inl e \<Rightarrow> None
                   | Inr False \<Rightarrow> None
                   | Inr True \<Rightarrow>
                       (case py_item data (u ''usage'') of Inl e \<Rightarrow> None | Inr us \<Rightarrow> Some us)))
           else None,
           st'))"

text \<open>
  The part of \<^verbatim>\<open>_get_accurate_tokens_via_complete_conversation\<close> after both
  answers are in (lines 961 to 984): \<open>total\<close> is the prompt-token count reported for
  the whole conversation, \<open>input_only_usage\<close> the result of the second request.
\<close>

definition split_tokens :: "json \<Rightarrow> json option \<Rightarrow> usage option" where
  "split_tokens total_conversation_tokens input_only_usage =
     (case input_only_usage of
        None \<Rightarrow> None
      | Some us \<Rightarrow>
          if py_truthy us then
            (case py_get us (u ''prompt_tokens'') (JInt 0) of
               Inl e \<Rightarrow> None
             | Inr accurate_input_tokens \<Rightarrow>
                 (case (py_int total_conversation_tokens, py_int accurate_input_tokens) of
                    (Inr a, Inr b) \<Rightarrow>
                      if 0 < a - b
                      then Some \<lparr>prompt_tokens = accurate_input_tokens,
                                 completion_tokens = JInt (a - b),
                                 total_tokens = JInt (b + (a - b))\<rparr>
                      else None
                  | _ \<Rightarrow> None))
          else None)"

text \<open>
  \<^verbatim>\<open>_get_accurate_tokens_via_complete_conversation\<close>: the first request carries
  the original messages and the answer as an assistant turn; the second request is made
  only when the first came back with status 200 and a \<^verbatim>\<open>usage\<close> entry whose
  \<^verbatim>\<open>get\<close> works.  Every exception is caught and gives \<^verbatim>\<open>None\<close>.
\<close>

definition get_accurate_tokens_via_complete_conversation ::
  "world \<Rightarrow> 'v adapter \<Rightarrow> 'v state \<Rightarrow> api_message list \<Rightarrow> ustr \<Rightarrow> (ustr \<times> ustr) list \<Rightarrow> ustr \<Rightarrow>
   int \<Rightarrow> usage option \<times> 'v state"
where
  "get_accurate_tokens_via_complete_conversation w self st original_messages
       ai_response_content hdrs api_url req_timeout =
     (let complete_conversation =
            map (\<lambda>msg. \<lparr>role = role msg, content = content msg\<rparr>) original_messages @
            [\<lparr>role = u ''assistant'', content = ai_response_content\<rparr>]
      in case requests_post w st
                \<lparr>url = api_url, headers = hdrs,
                 payload = counting_request self complete_conversation,
                 timeout = min 15 req_timeout, stream_body = False\<rparr> of
           (Inl e, st') \<Rightarrow> (None, st')
         | (Inr r, st') \<Rightarrow>
             (if status_code r = 200 then
                (case body r of
                   Inl e \<Rightarrow> (None, st')
                 | Inr data \<Rightarrow>
                     (case py_contains (u ''usage'') data of
                        Inl e \<Rightarrow> (None, st')
                      | Inr False \<Rightarrow> (None, st')
                      | Inr True \<Rightarrow>
                          (case py_item data (u ''usage'') of
                             Inl e \<Rightarrow> (None, st')
                           | Inr us \<Rightarrow>
                               (case py_get us (u ''prompt_tokens'') (JInt 0) of
                                  Inl e \<Rightarrow> (None, st')
                                | Inr total_conversation_tokens \<Rightarrow>
                                    (case get_input_only_tokens w self st' original_messages
                                            hdrs api_url req_timeout of
                                       (input_only_usage, st'') \<Rightarrow>
                                         (split_tokens total_conversation_tokens
                                            input_only_usage, st''))))))
              else (None, st')))"

subsection \<open>The direct transport path\<close>

text \<open>The texts of the exceptions raised by \<^verbatim>\<open>_direct_api_call\<close>, as code
  points: configuration error, failed call, malformed input, bad request, failed
  authentication, access denied, rate limit, server error, unknown error, timeout,
  connection error, network error.\<close>

definition msg_no_api_key :: ustr where
  "msg_no_api_key = [37197, 32622, 38169, 35823, 65306] @ [26080, 27861, 33719, 21462] @ u ''API'' @
     [23494, 38053, 65306, 35831, 26816, 26597, 21021, 22987, 21270, 21442, 25968, 25110, 29615,
      22659, 21464, 37327] @ u ''OPENAI_API_KEY''"

definition msg_call_failed :: "nat \<Rightarrow> ustr \<Rightarrow> ustr" where
  "msg_call_failed code t =
     u ''API'' @ [35843, 29992, 22833, 36133] @ u '': '' @ u ''HTTP '' @ show_nat code @ u '': '' @ t"

definition msg_malformed_input :: ustr where
  "msg_malformed_input =
     [36755, 20837, 26684, 24335, 38169, 35823, 65306, 28040, 24687, 21253, 21547, 27169, 22411,
      26080, 27861, 35299, 26512, 30340, 29305, 27530, 23383, 31526, 25110, 26684, 24335, 65292,
      35831, 31616, 21270, 36755, 20837, 20869, 23481]"

definition msg_bad_request :: "ustr \<Rightarrow> ustr" where
  "msg_bad_request t = [35831, 27714, 26684, 24335, 38169, 35823, 65306] @ t"

definition msg_unauthorized :: ustr where
  "msg_unauthorized =
     [36523, 20221, 39564, 35777, 22833, 36133, 65306, 35831, 26816, 26597] @ u ''API'' @
     [23494, 38053, 26159, 21542, 27491, 30830]"

definition msg_forbidden :: ustr where
  "msg_forbidden =
     [35775, 38382, 34987, 25298, 32477, 65306, 35831, 26816, 26597] @ u ''API'' @
     [23494, 38053, 26435, 38480]"

definition msg_rate_limited :: ustr where
  "msg_rate_limited =
     [35831, 27714, 39057, 29575, 36229, 38480, 65306, 35831, 31245, 21518, 20877, 35797]"

definition msg_server_error :: "nat \<Rightarrow> ustr" where
  "msg_server_error code =
     [26381, 21153, 22120, 38169, 35823] @ u '' ('' @ show_nat code @ u '')'' @
     [65306, 19978, 28216] @ u ''API'' @ [26381, 21153, 26242, 26102, 19981, 21487, 29992]"

definition msg_unknown_error :: "nat \<Rightarrow> ustr \<Rightarrow> ustr" where
  "msg_unknown_error code t =
     [26410, 30693, 38169, 35823] @ u '' ('' @ show_nat code @ u '')'' @ [65306] @ t"

definition msg_timeout :: ustr where
  "msg_timeout =
     [35831, 27714, 36229, 26102, 65306, 32593, 32476, 36830, 25509, 38382, 39064, 25110, 26381,
      21153, 22120, 21709, 24212, 36807, 24930]"

definition msg_connection :: ustr where
  "msg_connection =
     [36830, 25509, 38169, 35823, 65306, 26080, 27861, 36830, 25509, 21040] @ u ''API'' @
     [26381, 21153, 22120]"

definition msg_network :: "ustr \<Rightarrow> ustr" where
  "msg_network t = [32593, 32476, 35831, 27714, 38169, 35823, 65306] @ t"

text \<open>The three \<^verbatim>\<open>except\<close> clauses at the end of \<^verbatim>\<open>_direct_api_call\<close>; any
  other exception passes through.\<close>

fun translate_requests_error :: "exn \<Rightarrow> exn" where
  "translate_requests_error RequestsTimeout = Exception msg_timeout"
| "translate_requests_error RequestsConnectionError = Exception msg_connection"
| "translate_requests_error (RequestException m) = Exception (msg_network m)"
| "translate_requests_error e = e"

text \<open>Lines 686 to 701: roles and lightly cleaned contents.\<close>

definition to_api_messages :: "message list \<Rightarrow> api_message list" where
  "to_api_messages messages =
     map (\<lambda>msg.
            \<lparr>role = (case msg_role msg of
                       Some r \<Rightarrow> r
                     | None \<Rightarrow> if msg_type msg = u ''human'' then u ''user'' else u ''assistant''),
             content = clean_message_content (msg_content msg)\<rparr>)
       messages"

text \<open>Lines 704 to 723: the request body.  Nothing the caller passed besides the
  messages enters it.\<close>

definition request_data :: "'v adapter \<Rightarrow> api_message list \<Rightarrow> bool \<Rightarrow> request" where
  "request_data self api_messages stream =
     [(u ''model'',
       RStr (case user_defined_model self of
               Some m \<Rightarrow> if m \<noteq> [] then m else model_or_name self
             | None \<Rightarrow> model_or_name self)),
      (u ''messages'', RMessages api_messages),
      (u ''temperature'', RNum (temperature self)),
      (u ''stream'', RBool stream)] @
     (case max_tokens self of
        Some n \<Rightarrow> if 0 < n then [(u ''max_tokens'', RInt n)] else []
      | None \<Rightarrow> [])"

definition request_headers :: "ustr \<Rightarrow> (ustr \<times> ustr) list" where
  "request_headers api_key =
     [(u ''Content-Type'', u ''application/json''), (u ''Authorization'', u ''Bearer '' @ api_key)]"

text \<open>\<^verbatim>\<open>data['choices'][0]['message']['content']\<close>\<close>

definition message_content :: "json \<Rightarrow> exn + json" where
  "message_content data =
     (case py_item data (u ''choices'') of
        Inl e \<Rightarrow> Inl e
      | Inr choices \<Rightarrow>
          (case py_first choices of
             Inl e \<Rightarrow> Inl e
           | Inr choice \<Rightarrow>
               (case py_item choice (u ''message'') of
                  Inl e \<Rightarrow> Inl e
                | Inr m \<Rightarrow> py_item m (u ''content''))))"

text \<open>
  \<^verbatim>\<open>AIMessage(content=content)\<close>: the message class of the wrapped library declares
  its content as a string or a list of strings and dictionaries, and raises a
  validation error for anything else.
\<close>

fun content_part :: "json \<Rightarrow> bool" where
  "content_part (JStr s) = True"
| "content_part (JObj kvs) = True"
| "content_part v = False"

fun ai_message :: "world \<Rightarrow> json \<Rightarrow> exn + answer_content" where
  "ai_message w (JStr s) = Inr (Text s)"
| "ai_message w (JArr xs) =
     (if list_all content_part xs then Inr (Parts xs)
      else Inl (ValidationError (validation_text w (JArr xs))))"
| "ai_message w v = Inl (ValidationError (validation_text w v))"

text \<open>
  Lines 841 to 846, and 868 to 871: the length of the content is taken for the log,
  where \<^verbatim>\<open>len\<close> of \<^verbatim>\<open>None\<close>, of a number or of a truth value raises
  \<^verbatim>\<open>TypeError\<close>, and the result is built around the message.
\<close>

definition answer_of_content :: "world \<Rightarrow> json \<Rightarrow> exn + chat_result" where
  "answer_of_content w c =
     (case py_len c of
        Inl e \<Rightarrow> Inl e
      | Inr n \<Rightarrow>
          (case ai_message w c of
             Inl e \<Rightarrow> Inl e
           | Inr m \<Rightarrow> Inr \<lparr>result_content = m, llm_output = JNull\<rparr>))"

text \<open>The signature of a malformed-input answer, and the tests of lines 852 and 875.\<close>

definition is_token_parse_text :: "ustr \<Rightarrow> bool" where
  "is_token_parse_text t \<longleftrightarrow>
     sublist (u ''Unexpected token'') t \<and> sublist (u ''while expecting start token'') t"

text \<open>Lines 873 to 888: the exception for a status code other than 200.\<close>

definition status_error :: "nat \<Rightarrow> ustr \<Rightarrow> exn" where
  "status_error code t =
     (if code = 400 then
        (if sublist (u ''Unexpected token'') t then Exception msg_malformed_input
         else Exception (msg_bad_request t))
      else if code = 401 then Exception msg_unauthorized
      else if code = 403 then Exception msg_forbidden
      else if code = 429 then Exception msg_rate_limited
      else if 500 \<le> code then Exception (msg_server_error code)
      else Exception (msg_unknown_error code t))"

text \<open>Lines 822 to 827: the three figures are copied from the answer's \<^verbatim>\<open>usage\<close>
  as they are, 0 standing in for a missing key.\<close>

definition usage_of_body :: "json \<Rightarrow> exn + usage" where
  "usage_of_body us =
     (case py_get us (u ''prompt_tokens'') (JInt 0) of
        Inl e \<Rightarrow> Inl e
      | Inr p \<Rightarrow>
          (case py_get us (u ''completion_tokens'') (JInt 0) of
             Inl e \<Rightarrow> Inl e
           | Inr c \<Rightarrow>
               (case py_get us (u ''total_tokens'') (JInt 0) of
                  Inl e \<Rightarrow> Inl e
                | Inr t \<Rightarrow> Inr \<lparr>prompt_tokens = p, completion_tokens = c, total_tokens = t\<rparr>)))"

text \<open>The streaming branch (lines 740 to 805).\<close>

definition direct_api_call_stream ::
  "world \<Rightarrow> 'v adapter \<Rightarrow> 'v state \<Rightarrow> api_message list \<Rightarrow> (ustr \<times> ustr) list \<Rightarrow> ustr \<Rightarrow>
   (exn + chat_result) \<times> 'v state"
where
  "direct_api_call_stream w self st api_messages hdrs api_url =
     (case requests_post w st
             \<lparr>url = api_url, headers = hdrs, payload = request_data self api_messages True,
              timeout = request_timeout self, stream_body = True\<rparr> of
        (Inl e, st1) \<Rightarrow> (Inl (translate_requests_error e), st1)
      | (Inr r, st1) \<Rightarrow>
          if status_code r \<noteq> 200
          then (Inl (Exception (msg_call_failed (status_code r) (response_text r))), st1)
          else
            (case decode_lines (json_loads w) (iter_lines r) [] [] of
               Inl e \<Rightarrow> (Inl (translate_requests_error e), st1)
             | Inr (full_content, warned) \<Rightarrow>
                 (case get_accurate_tokens_via_complete_conversation w self st1 api_messages
                         full_content hdrs api_url (request_timeout self) of
                    (accurate_usage, st2) \<Rightarrow>
                      (Inr \<lparr>result_content = Text full_content, llm_output = JNull\<rparr>,
                       st2\<lparr>last_api_usage :=
                             Some (case accurate_usage of
                                     Some us \<Rightarrow> us
                                   | None \<Rightarrow>
                                       estimated_usage api_messages (length full_content))\<rparr>))))"

text \<open>The answer of a successful non-streaming request, read after the retry with
  aggressively cleaned messages (lines 866 to 871): no usage is stored there.\<close>

definition read_answer :: "world \<Rightarrow> response \<Rightarrow> exn + chat_result" where
  "read_answer w r =
     (case body r of
        Inl e \<Rightarrow> Inl (translate_requests_error e)
      | Inr data \<Rightarrow>
          (case message_content data of
             Inl e \<Rightarrow> Inl e
           | Inr c \<Rightarrow> answer_of_content w c))"

text \<open>The non-streaming branch (lines 807 to 888).\<close>

definition direct_api_call_plain ::
  "world \<Rightarrow> 'v adapter \<Rightarrow> 'v state \<Rightarrow> api_message list \<Rightarrow> (ustr \<times> ustr) list \<Rightarrow> ustr \<Rightarrow>
   (exn + chat_result) \<times> 'v state"
where
  "direct_api_call_plain w self st api_messages hdrs api_url =
     (case requests_post w st
             \<lparr>url = api_url, headers = hdrs, payload = request_data self api_messages False,
              timeout = request_timeout self, stream_body = False\<rparr> of
        (Inl e, st1) \<Rightarrow> (Inl (translate_requests_error e), st1)
      | (Inr r, st1) \<Rightarrow>
          if status_code r = 200 then
            (case body r of
               Inl e \<Rightarrow> (Inl (translate_requests_error e), st1)
             | Inr data \<Rightarrow>
                 (case message_content data of
                    Inl e \<Rightarrow> (Inl e, st1)
                  | Inr c \<Rightarrow>
                      (case py_contains (u ''usage'') data of
                         Inl e \<Rightarrow> (Inl e, st1)
                       | Inr True \<Rightarrow>
                           (case py_item data (u ''usage'') of
                              Inl e \<Rightarrow> (Inl e, st1)
                            | Inr us \<Rightarrow>
                                (case usage_of_body us of
                                   Inl e \<Rightarrow> (Inl e, st1)
                                 | Inr stored \<Rightarrow>
                                     (answer_of_content w c,
                                      st1\<lparr>last_api_usage := Some stored\<rparr>)))
                       | Inr False \<Rightarrow>
                           (case py_len c of
                              Inl e \<Rightarrow> (Inl e, st1)
                            | Inr n \<Rightarrow>
                                (answer_of_content w c,
                                 st1\<lparr>last_api_usage :=
                                       Some (estimated_usage api_messages n)\<rparr>)))))
          else if is_token_parse_text (response_text r) \<and>
                  aggressive_clean_messages api_messages \<noteq> api_messages then
            (case requests_post w st1
                    \<lparr>url = api_url, headers = hdrs,
                     payload = request_data self (aggressive_clean_messages api_messages) False,
                     timeout = request_timeout self, stream_body = False\<rparr> of
               (Inl e, st2) \<Rightarrow> (Inl (translate_requests_error e), st2)
             | (Inr retry_response, st2) \<Rightarrow>
                 if status_code retry_response = 200 then (read_answer w retry_response, st2)
                 else (Inl (status_error (status_code r) (response_text r)), st2))
          else (Inl (status_error (status_code r) (response_text r)), st1))"

text \<open>\<^verbatim>\<open>_direct_api_call\<close>: the key and the base URL are read first; a missing key
  is a configuration error before any request.\<close>

definition direct_api_call ::
  "world \<Rightarrow> 'v adapter \<Rightarrow> 'v state \<Rightarrow> message list \<Rightarrow> bool \<Rightarrow> (exn + chat_result) \<times> 'v state"
where
  "direct_api_call w self st messages stream =
     (case get_api_key w self of
        None \<Rightarrow> (Inl (Exception msg_no_api_key), st)
      | Some api_key \<Rightarrow>
          if stream
          then direct_api_call_stream w self st (to_api_messages messages)
                 (request_headers api_key) (get_base_url self @ u ''/chat/completions'')
          else direct_api_call_plain w self st (to_api_messages messages)
                 (request_headers api_key) (get_base_url self @ u ''/chat/completions''))"

subsection \<open>Construction and the option filters\<close>

text \<open>
  \<^verbatim>\<open>__init__\<close>, lines 82 to 123.  The wrapped class is built with a timeout of
  120 seconds and \<^verbatim>\<open>max_retries=2\<close>.  The keyword \<^verbatim>\<open>streaming\<close> is handed on to the
  field of that name of the wrapped class, which is declared \<^verbatim>\<open>bool\<close>; it is given
  here as an optional truth value, apart from the other keywords.  \<^verbatim>\<open>stream\<close> is
  looked up among the keywords and counts only when it is a \<^verbatim>\<open>bool\<close>.  Both are
  removed from what the wrapped class receives.  \<open>parent_has_model\<close> says whether the
  wrapped class exposes the attribute \<^verbatim>\<open>model\<close>.
\<close>

definition init ::
  "ustr \<Rightarrow> ustr option \<Rightarrow> ustr \<Rightarrow> real \<Rightarrow> int option \<Rightarrow> ustr option \<Rightarrow> bool option \<Rightarrow> 'v kwargs \<Rightarrow>
   bool \<Rightarrow> 'v adapter"
where
  "init model api_key base_url temp max_toks sid streaming_kw kwargs parent_has_model =
     (let default_streaming = False;
          user_streaming = (case streaming_kw of Some b \<Rightarrow> b | None \<Rightarrow> default_streaming);
          user_stream =
            (case map_of kwargs (u ''stream'') of
               Some (PBool b) \<Rightarrow> b
             | Some (PObj x) \<Rightarrow> default_streaming
             | None \<Rightarrow> default_streaming)
      in \<lparr>model_name = model,
          model_attr = (if parent_has_model then Some model else None),
          user_defined_model = Some model,
          openai_api_key = api_key,
          openai_api_base = Some base_url,
          temperature = temp,
          max_tokens = max_toks,
          request_timeout = 120,
          max_retries = 2,
          session_id = sid,
          streaming = user_streaming,
          user_wants_streaming = (user_streaming \<or> user_stream),
          user_stream_setting = user_stream,
          parent_kwargs = pop_key (u ''stream'') (pop_key (u ''streaming'') kwargs)\<rparr>)"

definition filter_safe_kwargs :: "'v kwargs \<Rightarrow> 'v kwargs" where
  "filter_safe_kwargs kwargs = kwargs"

definition filter_model_kwargs :: "'v kwargs \<Rightarrow> 'v kwargs" where
  "filter_model_kwargs model_kwargs = (if model_kwargs = [] then [] else model_kwargs)"

subsection \<open>\<^verbatim>\<open>_generate\<close>\<close>

text \<open>The text of an exception, where it can vary; the texts of the other built-in
  errors are fixed by the interpreter and contain none of the signatures looked for, and
  the two \<^verbatim>\<open>requests\<close> exceptions never leave \<^verbatim>\<open>_direct_api_call\<close>.\<close>

fun exn_str :: "exn \<Rightarrow> ustr option" where
  "exn_str (Exception m) = Some m"
| "exn_str (UnicodeDecodeError m) = Some m"
| "exn_str (JSONDecodeError m) = Some m"
| "exn_str (ValueError m) = Some m"
| "exn_str (ValidationError m) = Some m"
| "exn_str (RequestException m) = Some m"
| "exn_str e = None"

definition token_parse_error :: "exn \<Rightarrow> bool" where
  "token_parse_error e = (case exn_str e of Some m \<Rightarrow> is_token_parse_text m | None \<Rightarrow> False)"

text \<open>Line 508.  The second test looks for a capitalised text in a lower-cased one.\<close>

definition server_error :: "exn \<Rightarrow> bool" where
  "server_error e =
     (case exn_str e of
        Some m \<Rightarrow> sublist (u ''500'') m \<or> sublist (u ''Internal server error'') (py_lower m)
      | None \<Rightarrow> False)"

text \<open>Lines 484 to 499: the messages of the retry, cleaned lightly and rebuilt as
  human or AI messages.\<close>

definition clean_for_retry :: "message \<Rightarrow> message" where
  "clean_for_retry msg =
     \<lparr>msg_type = (if msg_type msg = u ''human'' then u ''human'' else u ''ai''),
      msg_role = None,
      msg_content = clean_message_content (msg_content msg)\<rparr>"

text \<open>The answer returned when the direct path fails after a server error: a fixed
  diagnostic text.\<close>

definition msg_unavailable :: ustr where
  "msg_unavailable =
     [128680] @ u '' API'' @
     [26381, 21153, 26242, 26102, 19981, 21487, 29992, 65292, 35831, 31245, 21518, 20877, 35797,
      12290, 21407, 22240, 65306, 19978, 28216] @ u ''API'' @
     [26381, 21153, 20986, 29616, 38169, 35823, 65292, 21516, 26102, 22791, 29992, 35843, 29992,
      26426, 21046, 20063, 22833, 36133, 12290]"

definition create_error_response :: "ustr \<Rightarrow> chat_result" where
  "create_error_response error_message =
     \<lparr>result_content = Text error_message, llm_output = JNull\<rparr>"

text \<open>\<^verbatim>\<open>x == 0\<close> and \<^verbatim>\<open>x > 0\<close> on a decoded value.\<close>

fun py_is_zero :: "json \<Rightarrow> bool" where
  "py_is_zero (JInt i) = (i = 0)"
| "py_is_zero (JBool b) = (\<not> b)"
| "py_is_zero v = False"

fun py_positive :: "json \<Rightarrow> exn + bool" where
  "py_positive (JInt i) = Inr (0 < i)"
| "py_positive (JBool b) = Inr b"
| "py_positive v = Inl TypeError"

text \<open>
  Lines 530 to 601: token tracking.  A \<^verbatim>\<open>ChatResult\<close> has \<^verbatim>\<open>llm_output\<close> but
  none of \<^verbatim>\<open>response_metadata\<close>, \<^verbatim>\<open>usage_metadata\<close> and \<^verbatim>\<open>content\<close>, so the
  second and third methods are skipped and the estimate of the output is made from the
  empty text.  An exception ends the tracking and is logged.  The ledger entry keeps the
  two token figures of the call of the tracker.
\<close>

text \<open>The first method (lines 536 to 540).\<close>

definition llm_output_tokens :: "chat_result \<Rightarrow> exn + (json \<times> json)" where
  "llm_output_tokens result =
     (if py_truthy (llm_output result) then
        (case py_get (llm_output result) (u ''token_usage'') (JObj []) of
           Inl e \<Rightarrow> Inl e
         | Inr token_usage \<Rightarrow>
             (case py_get token_usage (u ''prompt_tokens'') (JInt 0) of
                Inl e \<Rightarrow> Inl e
              | Inr input_tokens \<Rightarrow>
                  (case py_get token_usage (u ''completion_tokens'') (JInt 0) of
                     Inl e \<Rightarrow> Inl e
                   | Inr output_tokens \<Rightarrow> Inr (input_tokens, output_tokens))))
      else Inr (JInt 0, JInt 0))"

text \<open>\<^verbatim>\<open>input_tokens > 0 or output_tokens > 0\<close> (line 578).\<close>

definition some_positive :: "json \<Rightarrow> json \<Rightarrow> exn + bool" where
  "some_positive input_tokens output_tokens =
     (case py_positive input_tokens of
        Inl e \<Rightarrow> Inl e
      | Inr True \<Rightarrow> Inr True
      | Inr False \<Rightarrow> py_positive output_tokens)"

definition track_tokens :: "world \<Rightarrow> 'v state \<Rightarrow> message list \<Rightarrow> chat_result \<Rightarrow> 'v state" where
  "track_tokens w st messages result =
     (case llm_output_tokens result of
        Inl e \<Rightarrow> st
      | Inr (i1, o1) \<Rightarrow>
          (case (case last_api_usage st of
                   Some us \<Rightarrow>
                     if py_is_zero i1 \<and> py_is_zero o1
                     then (prompt_tokens us, completion_tokens us, st\<lparr>last_api_usage := None\<rparr>)
                     else (i1, o1, st)
                 | None \<Rightarrow> (i1, o1, st)) of
             (i4, o4, st4) \<Rightarrow>
               (case (if py_is_zero i4 \<and> py_is_zero o4 \<and> messages \<noteq> []
                      then (JInt (estimate_tokens
                                    (length (join_space (map msg_content messages)))),
                            JInt (estimate_tokens 0))
                      else (i4, o4)) of
                  (input_tokens, output_tokens) \<Rightarrow>
                    (case some_positive input_tokens output_tokens of
                       Inl e \<Rightarrow> st4
                     | Inr False \<Rightarrow> st4
                     | Inr True \<Rightarrow>
                         if token_tracking_enabled w
                         then st4\<lparr>ledger := ledger st4 @ [(input_tokens, output_tokens)]\<rparr>
                         else st4))))"

text \<open>
  \<^verbatim>\<open>_generate\<close>.  The two bookkeeping keywords are taken out first.  The streaming
  decision is the adapter's \<^verbatim>\<open>user_wants_streaming\<close>, switched on by a keyword
  \<^verbatim>\<open>stream\<close> that is the \<^verbatim>\<open>bool\<close> \<^verbatim>\<open>True\<close>.  The result is the returned answer
  or the exception that leaves the method.
\<close>

definition generate ::
  "world \<Rightarrow> 'v adapter \<Rightarrow> 'v state \<Rightarrow> message list \<Rightarrow> ustr list option \<Rightarrow> 'v kwargs \<Rightarrow>
   (exn + chat_result) \<times> 'v state"
where
  "generate w self st messages stop kwargs0 =
     (let kwargs = pop_key (u ''analysis_type'') (pop_key (u ''session_id'') kwargs0);
          wants_streaming =
            (user_wants_streaming self \<or>
             (case map_of kwargs (u ''stream'') of Some (PBool b) \<Rightarrow> b | _ \<Rightarrow> False))
      in case (if wants_streaming then direct_api_call w self st messages True
               else super_generate w self st messages stop kwargs) of
           (Inr result, st1) \<Rightarrow> (Inr result, track_tokens w st1 messages result)
         | (Inl e, st1) \<Rightarrow>
             if token_parse_error e then
               (case super_generate w self st1 (map clean_for_retry messages) stop kwargs of
                  (Inr result, st2) \<Rightarrow> (Inr result, track_tokens w st2 messages result)
                | (Inl retry_error, st2) \<Rightarrow>
                    (case direct_api_call w self st2 messages True of
                       (Inr result, st3) \<Rightarrow> (Inr result, track_tokens w st3 messages result)
                     | (Inl direct_error, st3) \<Rightarrow> (Inl direct_error, st3)))
             else if server_error e then
               (case direct_api_call w self st1 messages True of
                  (Inr result, st2) \<Rightarrow> (Inr result, track_tokens w st2 messages result)
                | (Inl direct_error, st2) \<Rightarrow>
                    (Inr (create_error_response msg_unavailable), st2))
             else (Inl e, st1))"

subsection \<open>Concrete runs\<close>

text \<open>
  Inputs on which the properties below are instantiated: chunks of the wire protocol,
  payloads and streams of event lines, answers of the upstream, and a caller with one
  human message.
\<close>

definition delta_chunk :: "ustr \<Rightarrow> json" where
  "delta_chunk t =
     JObj [(u ''choices'', JArr [JObj [(u ''delta'', JObj [(u ''content'', JStr t)])]])]"

definition inline_usage :: json where
  "inline_usage =
     JObj [(u ''prompt_tokens'', JInt 12), (u ''completion_tokens'', JInt 5),
           (u ''total_tokens'', JInt 17)]"

definition payload_A :: ustr where
  \<open>payload_A = u ''{"choices":[{"delta":{"content":"A"}}]}''\<close>

definition payload_B :: ustr where
  \<open>payload_B = u ''{"choices":[{"delta":{"content":"B"}}]}''\<close>

definition payload_A_usage :: ustr where
  \<open>payload_A_usage =
     u ''{"usage":{"prompt_tokens":12,"completion_tokens":5,"total_tokens":17},'' @
     u ''"choices":[{"delta":{"content":"A"}}]}''\<close>

definition deep_payload :: ustr where
  "deep_payload = replicate 100000 91"

text \<open>The reading of these payloads by \<^verbatim>\<open>json.loads\<close>: three chunks, a hundred
  thousand opening brackets, on which it runs out of stack, and texts that are not
  JSON.\<close>

definition sample_loads :: "ustr \<Rightarrow> exn + json" where
  "sample_loads s =
     (if s = payload_A then Inr (delta_chunk (u ''A''))
      else if s = payload_B then Inr (delta_chunk (u ''B''))
      else if s = payload_A_usage then
        Inr (JObj [(u ''usage'', inline_usage),
                   (u ''choices'', JArr [JObj [(u ''delta'', JObj [(u ''content'', JStr (u ''A''))])]])])
      else if s = deep_payload then Inl RecursionError
      else Inl (JSONDecodeError (u ''Expecting value'')))"

definition sample_lines :: "raw_line list" where
  "sample_lines =
     [Line (u ''data: '' @ payload_A), Line (u ''malformed-json''),
      Line (u ''data: '' @ payload_B), Line (u ''data: [DONE]'')]"

definition usage_lines :: "raw_line list" where
  "usage_lines = [Line (u ''data: '' @ payload_A_usage), Line (u ''data: [DONE]'')]"

definition nested_lines :: "raw_line list" where
  "nested_lines =
     [Line (u ''data: '' @ payload_A), Line (u ''data: '' @ deep_payload),
      Line (u ''data: '' @ payload_B), Line (u ''data: [DONE]'')]"

definition stream_response :: "raw_line list \<Rightarrow> response" where
  "stream_response ls =
     \<lparr>status_code = 200, response_text = [], body = Inl (Exception []), iter_lines = ls\<rparr>"

definition json_response :: "nat \<Rightarrow> json \<Rightarrow> response" where
  "json_response code j =
     \<lparr>status_code = code, response_text = [], body = Inr j, iter_lines = []\<rparr>"

definition error_response :: "nat \<Rightarrow> ustr \<Rightarrow> response" where
  "error_response code t =
     \<lparr>status_code = code, response_text = t, body = Inl (Exception []), iter_lines = []\<rparr>"

definition prompt_count :: "int \<Rightarrow> json" where
  "prompt_count n = JObj [(u ''usage'', JObj [(u ''prompt_tokens'', JInt n)])]"

definition parse_failure :: ustr where
  "parse_failure = u ''Unexpected token 60 while expecting start token 200006''"

definition text_answer :: "ustr \<Rightarrow> json \<Rightarrow> chat_result" where
  "text_answer t out = \<lparr>result_content = Text t, llm_output = out\<rparr>"

text \<open>An upstream given by the outcomes of the calls of the high-level path, the
  number of times the wrapped client repeats its request, and the answers to the
  adapter's own requests.  No key is set in the environment, and tracking is on.\<close>

definition upstream ::
  "(nat \<Rightarrow> ustr + chat_result) \<Rightarrow> nat \<Rightarrow> (nat \<Rightarrow> exn + response) \<Rightarrow> world"
where
  "upstream answers repeats posts =
     \<lparr>json_loads = sample_loads,
      high_level_answer = answers,
      high_level_retries = (\<lambda>n. repeats),
      post_answer = posts,
      validation_text = (\<lambda>c. u ''validation error for AIMessage''),
      env_api_key = None,
      token_tracking_enabled = True\<rparr>"

text \<open>An upstream whose high-level path always reports the malformed-input error,
  at the first request, and whose \<open>k\<close>-th answer is the sample stream, followed by the
  two measurements 40 and 25.\<close>

definition replay_world :: "nat \<Rightarrow> world" where
  "replay_world k =
     upstream (\<lambda>n. Inl parse_failure) 0
       (\<lambda>n. if n = k then Inr (stream_response sample_lines)
             else if n = Suc k then Inr (json_response 200 (prompt_count 40))
             else Inr (json_response 200 (prompt_count 25)))"

text \<open>The same for a streaming call: the first request is refused with status 400
  and the malformed-input text, the high-level path reports the error as well, and the
  answers after that are the sample stream and the two measurements.\<close>

definition refusing_world :: world where
  "refusing_world =
     upstream (\<lambda>n. Inl parse_failure) 0
       (\<lambda>n. if n = 0 then Inr (error_response 400 parse_failure)
             else if n = 2 then Inr (stream_response sample_lines)
             else if n = 3 then Inr (json_response 200 (prompt_count 40))
             else Inr (json_response 200 (prompt_count 25)))"

text \<open>An upstream that answers every request of the high-level path with status 500
  and the malformed-input text, so that the wrapped client repeats each request twice,
  and then serves the stream and the measurements.\<close>

definition failing_world :: world where
  "failing_world =
     upstream (\<lambda>n. Inl (u ''Error code: 500 - '' @ parse_failure)) 2
       (\<lambda>n. if n = 6 then Inr (stream_response sample_lines)
             else if n = 7 then Inr (json_response 200 (prompt_count 40))
             else Inr (json_response 200 (prompt_count 25)))"

text \<open>An upstream whose stream carries an inline usage object and whose other answers
  have status 500; one whose stream has a line nested too deeply; one that answers a
  plain request with a usage lacking the total; one whose high-level path succeeds, one
  whose high-level path reports token counts of its own; one that cannot be reached, and
  one whose high-level path fails with a server error and that cannot be reached
  otherwise.\<close>

definition inline_usage_world :: world where
  "inline_usage_world =
     upstream (\<lambda>n. Inl parse_failure) 0
       (\<lambda>n. if n = 0 then Inr (stream_response usage_lines)
             else Inr (json_response 500 JNull))"

definition nested_world :: world where
  "nested_world =
     upstream (\<lambda>n. Inl parse_failure) 0
       (\<lambda>n. if n = 0 then Inr (stream_response nested_lines)
             else Inr (json_response 200 (prompt_count 25)))"

definition plain_body :: json where
  "plain_body =
     JObj [(u ''choices'', JArr [JObj [(u ''message'', JObj [(u ''content'', JStr (u ''ok''))])]]),
           (u ''usage'', JObj [(u ''prompt_tokens'', JInt 12), (u ''completion_tokens'', JInt 5)])]"

definition plain_world :: world where
  "plain_world =
     upstream (\<lambda>n. Inr (text_answer (u ''ok'') JNull)) 0
       (\<lambda>n. Inr (json_response 200 plain_body))"

definition reported_usage :: json where
  "reported_usage =
     JObj [(u ''token_usage'',
            JObj [(u ''prompt_tokens'', JInt (- 3)), (u ''completion_tokens'', JInt 8)])]"

definition metadata_world :: world where
  "metadata_world =
     upstream (\<lambda>n. Inr (text_answer (u ''ok'') reported_usage)) 0
       (\<lambda>n. Inl RequestsConnectionError)"

definition unreachable_world :: world where
  "unreachable_world =
     upstream (\<lambda>n. Inl (u ''Connection error.'')) 0 (\<lambda>n. Inl RequestsConnectionError)"

definition server_error_world :: world where
  "server_error_world =
     upstream (\<lambda>n. Inl (u ''Error code: 500'')) 0 (\<lambda>n. Inl RequestsConnectionError)"

definition sample_messages :: "message list" where
  "sample_messages = [\<lparr>msg_type = u ''human'', msg_role = None, msg_content = u ''hi''\<rparr>]"

definition padded_messages :: "message list" where
  "padded_messages = [\<lparr>msg_type = u ''human'', msg_role = None, msg_content = u ''  hi  ''\<rparr>]"

definition sample_adapter :: "bool option \<Rightarrow> nat kwargs \<Rightarrow> nat adapter" where
  "sample_adapter streaming_kw kwargs =
     init (u ''demo-model'') (Some (u ''sk-demo'')) (u ''http://upstream/v1'') (1 / 10)
       (Some 2000) None streaming_kw kwargs False"

definition initial_state :: "nat state" where
  "initial_state = \<lparr>attempts = [], last_api_usage = None, ledger = []\<rparr>"
section \<open>Notions used in the proofs\<close>

subsection \<open>Invariants of cleaned text\<close>

text \<open>\<open>runs_below P n k s\<close>: reading \<open>s\<close> after \<open>k\<close> characters of the class
  \<open>P\<close>, no run of \<open>P\<close> characters reaches the length \<open>n\<close>.\<close>

fun runs_below :: "(nat \<Rightarrow> bool) \<Rightarrow> nat \<Rightarrow> nat \<Rightarrow> ustr \<Rightarrow> bool" where
  "runs_below P n k [] = True"
| "runs_below P n k (x # xs) =
     (if P x then Suc k < n \<and> runs_below P n (Suc k) xs else runs_below P n 0 xs)"

definition trimmed :: "ustr \<Rightarrow> bool" where
  "trimmed s \<longleftrightarrow> s = [] \<or> (\<not> py_isspace (hd s) \<and> \<not> py_isspace (last s))"

text \<open>The value of \<^verbatim>\<open>content\<close> before the length check of line 270.\<close>

definition pre_truncation :: "ustr \<Rightarrow> ustr" where
  "pre_truncation s =
     (let c6 = py_strip (sub_runs is_blank 3 [32, 32] (sub_runs is_newline 3 [10, 10]
                 (replace_char 13 10 (replace_crlf (remove_char 65279 (remove_char 8203 s))))))
      in if c6 = [] then default_content else c6)"

definition stripped_char :: "nat \<Rightarrow> bool" where
  "stripped_char c \<longleftrightarrow> c = 8203 \<or> c = 65279 \<or> c = 13"

definition clean_inv :: "ustr \<Rightarrow> bool" where
  "clean_inv s \<longleftrightarrow>
     (\<forall>c \<in> set s. \<not> stripped_char c) \<and> runs_below is_newline 3 0 s \<and>
     runs_below is_blank 3 0 s \<and> trimmed s \<and> s \<noteq> []"

subsection \<open>Attempts and chunks\<close>

fun is_post :: "'v attempt \<Rightarrow> bool" where
  "is_post (HttpPost rq) = True"
| "is_post (HighLevel msgs stop kw) = False"

text \<open>A decoded chunk with its \<^verbatim>\<open>usage\<close> entry taken out.\<close>

fun without_usage :: "json \<Rightarrow> json" where
  "without_usage (JObj kvs) = JObj (filter (\<lambda>(k, v). k \<noteq> u ''usage'') kvs)"
| "without_usage v = v"

text \<open>The same upstream read by a \<^verbatim>\<open>json.loads\<close> that drops the \<^verbatim>\<open>usage\<close>
  entry of every chunk.\<close>

definition usage_blind :: "world \<Rightarrow> world" where
  "usage_blind w = w\<lparr>json_loads := \<lambda>s. map_sum id without_usage (json_loads w s)\<rparr>"

text \<open>The first attempt made between two states, if any.\<close>

definition first_attempt :: "'v state \<Rightarrow> 'v state \<Rightarrow> 'v attempt option" where
  "first_attempt st st' =
     (case drop (length (attempts st)) (attempts st') of [] \<Rightarrow> None | a # ps \<Rightarrow> Some a)"

text \<open>The two kinds of request that the adapter itself sends: the streaming request of
  the direct path for the caller's messages, and a measurement request, which is the
  counting request for the messages it carries.\<close>

definition streaming_request :: "'v adapter \<Rightarrow> message list \<Rightarrow> http_post \<Rightarrow> bool" where
  "streaming_request self messages rq \<longleftrightarrow>
     stream_body rq \<and> payload rq = request_data self (to_api_messages messages) True"

definition measurement_request :: "'v adapter \<Rightarrow> http_post \<Rightarrow> bool" where
  "measurement_request self rq \<longleftrightarrow>
     \<not> stream_body rq \<and>
     payload rq =
       counting_request self
         (case map_of (payload rq) (u ''messages'') of Some (RMessages ms) \<Rightarrow> ms | _ \<Rightarrow> [])"

fun adapter_requests :: "'v attempt list \<Rightarrow> http_post list" where
  "adapter_requests [] = []"
| "adapter_requests (HttpPost rq # ps) = rq # adapter_requests ps"
| "adapter_requests (HighLevel msgs stop kw # ps) = adapter_requests ps"

section \<open>Properties\<close>

subsection \<open>The light cleaning is idempotent\<close>

lemma runs_below_mono: "runs_below P n k s \<Longrightarrow> j \<le> k \<Longrightarrow> runs_below P n j s"
  by (induction s arbitrary: k j) auto

lemma runs_below_takeWhile:
  "runs_below P n k s \<Longrightarrow> takeWhile P s \<noteq> [] \<Longrightarrow> k + length (takeWhile P s) < n"
proof (induction s arbitrary: k)
  case Nil
  then show ?case by simp
next
  case (Cons x xs)
  from Cons.prems have px: "P x" by (auto split: if_splits)
  with Cons.prems have k: "Suc k < n" and rest: "runs_below P n (Suc k) xs" by auto
  show ?case
  proof (cases "takeWhile P xs = []")
    case True
    with px k show ?thesis by simp
  next
    case False
    from Cons.IH [OF rest False] px show ?thesis by simp
  qed
qed

lemma runs_below_dropWhile: "runs_below P n k s \<Longrightarrow> runs_below P n 0 (dropWhile P s)"
  by (induction s arbitrary: k) (auto split: if_splits)

lemma sub_runs_fixed: "runs_below P n k s \<Longrightarrow> sub_runs P n rep s = s"
proof (induction P n rep s arbitrary: k rule: sub_runs.induct)
  case (1 P n rep)
  then show ?case by simp
next
  case (2 P n rep x xs)
  show ?case
  proof (cases "P x")
    case True
    from "2.prems" True have "k + length (takeWhile P (x # xs)) < n"
      by (intro runs_below_takeWhile) auto
    with True have short: "\<not> n \<le> length (x # takeWhile P xs)" by simp
    from "2.prems" have "runs_below P n 0 (dropWhile P (x # xs))"
      by (rule runs_below_dropWhile)
    with True have "runs_below P n 0 (dropWhile P xs)" by simp
    with "2.IH"(1) True have "sub_runs P n rep (dropWhile P xs) = dropWhile P xs"
      by simp
    with True short show ?thesis by (simp add: Let_def)
  next
    case False
    with "2.prems" have "runs_below P n 0 xs" by simp
    with "2.IH"(2) False have "sub_runs P n rep xs = xs" by simp
    with False show ?thesis by simp
  qed
qed


lemma runs_below_run_append:
  "list_all P r \<Longrightarrow>
   runs_below P n k (r @ t) \<longleftrightarrow> (r \<noteq> [] \<longrightarrow> k + length r < n) \<and> runs_below P n (k + length r) t"
  by (induction r arbitrary: k) auto

lemma runs_below_head:
  "t = [] \<or> \<not> P (hd t) \<Longrightarrow> runs_below P n k t = runs_below P n 0 t"
  by (cases t) auto

lemma sub_runs_head:
  "s = [] \<or> \<not> P (hd s) \<Longrightarrow> sub_runs P n rep s = [] \<or> \<not> P (hd (sub_runs P n rep s))"
  by (cases s) auto

lemma dropWhile_head: "dropWhile P xs = [] \<or> \<not> P (hd (dropWhile P xs))"
  using hd_dropWhile [of P xs] by blast

lemma runs_below_sub_runs_same:
  "list_all P rep \<Longrightarrow> length rep < n \<Longrightarrow> runs_below P n 0 (sub_runs P n rep s)"
proof (induction P n rep s rule: sub_runs.induct)
  case (1 P n rep)
  then show ?case by simp
next
  case (2 P n rep x xs)
  show ?case
  proof (cases "P x")
    case True
    define r where "r = (if n \<le> length (x # takeWhile P xs) then rep else x # takeWhile P xs)"
    define T where "T = sub_runs P n rep (dropWhile P xs)"
    have allr: "list_all P r"
      using True "2.prems"(1) by (auto simp: r_def list_all_iff dest: set_takeWhileD)
    have lenr: "length r < n"
      using "2.prems"(2) by (auto simp: r_def)
    have headT: "T = [] \<or> \<not> P (hd T)"
      unfolding T_def by (rule sub_runs_head) (rule dropWhile_head)
    have "runs_below P n 0 T"
      unfolding T_def using "2.IH"(1) True "2.prems" by simp
    then have "runs_below P n (0 + length r) T"
      using runs_below_head [of T P n "length r"] headT by simp
    then have "runs_below P n 0 (r @ T)"
      using lenr by (simp add: runs_below_run_append [OF allr])
    moreover have "sub_runs P n rep (x # xs) = r @ T"
      using True by (simp add: r_def T_def Let_def)
    ultimately show ?thesis by simp
  next
    case False
    with 2 show ?thesis by simp
  qed
qed

lemma runs_below_skip:
  "r \<noteq> [] \<Longrightarrow> list_all (\<lambda>c. \<not> Q c) r \<Longrightarrow> runs_below Q m k (r @ t) = runs_below Q m 0 t"
proof (induction r arbitrary: k)
  case Nil
  then show ?case by simp
next
  case (Cons x r)
  then show ?case by (cases r) auto
qed

lemma runs_below_dropWhile_other:
  "(\<And>c. P c \<Longrightarrow> \<not> Q c) \<Longrightarrow> runs_below Q m k xs \<Longrightarrow> runs_below Q m 0 (dropWhile P xs)"
proof (induction xs arbitrary: k)
  case Nil
  then show ?case by simp
next
  case (Cons x xs)
  show ?case
  proof (cases "P x")
    case True
    with Cons.prems have "runs_below Q m 0 xs" by auto
    with Cons.IH Cons.prems(1) True show ?thesis by simp
  next
    case False
    with Cons.prems(2) runs_below_mono [of Q m k "x # xs" 0] show ?thesis by simp
  qed
qed

lemma runs_below_sub_runs_other:
  "(\<And>c. P c \<Longrightarrow> \<not> Q c) \<Longrightarrow> rep \<noteq> [] \<Longrightarrow> list_all (\<lambda>c. \<not> Q c) rep \<Longrightarrow>
   runs_below Q m k s \<Longrightarrow> runs_below Q m k (sub_runs P n rep s)"
proof (induction P n rep s arbitrary: k rule: sub_runs.induct)
  case (1 P n rep)
  then show ?case by simp
next
  case (2 P n rep x xs)
  note disj = "2.prems"(1)
  show ?case
  proof (cases "P x")
    case True
    define r where "r = (if n \<le> length (x # takeWhile P xs) then rep else x # takeWhile P xs)"
    define T where "T = sub_runs P n rep (dropWhile P xs)"
    have nonempty: "r \<noteq> []"
      using "2.prems"(2) by (simp add: r_def)
    have allr: "list_all (\<lambda>c. \<not> Q c) r"
      using True "2.prems"(3) disj by (auto simp: r_def list_all_iff dest: set_takeWhileD)
    from True disj have "\<not> Q x" by simp
    with "2.prems"(4) have "runs_below Q m 0 xs" by simp
    then have "runs_below Q m 0 (dropWhile P xs)"
      using disj by (rule runs_below_dropWhile_other [rotated])
    then have "runs_below Q m 0 T"
      unfolding T_def using "2.IH"(1) [OF True refl] "2.prems"(1-3) by simp
    then have "runs_below Q m k (r @ T)"
      by (simp add: runs_below_skip [OF nonempty allr])
    moreover have "sub_runs P n rep (x # xs) = r @ T"
      using True by (simp add: r_def T_def Let_def)
    ultimately show ?thesis by simp
  next
    case False
    show ?thesis
    proof (cases "Q x")
      case True
      with "2.prems"(4) have "Suc k < m" and "runs_below Q m (Suc k) xs" by auto
      with "2.IH"(2) [OF False] "2.prems"(1-3) have "runs_below Q m (Suc k) (sub_runs P n rep xs)"
        by simp
      with \<open>Suc k < m\<close> True False show ?thesis by simp
    next
      case nq: False
      with "2.prems"(4) have "runs_below Q m 0 xs" by auto
      with "2.IH"(2) [OF False] "2.prems"(1-3) have "runs_below Q m 0 (sub_runs P n rep xs)"
        by simp
      with nq False show ?thesis by simp
    qed
  qed
qed

lemma runs_below_prefix: "runs_below P n k (a @ b) \<Longrightarrow> runs_below P n k a"
  by (induction a arbitrary: k) (auto split: if_splits)

lemma runs_below_suffix: "runs_below P n k (a @ b) \<Longrightarrow> runs_below P n 0 b"
proof (induction a arbitrary: k)
  case Nil
  then show ?case using runs_below_mono [of P n k b 0] by simp
next
  case (Cons x a)
  then show ?case by (auto split: if_splits)
qed

lemma runs_below_take: "runs_below P n k s \<Longrightarrow> runs_below P n k (take j s)"
  using runs_below_prefix [of P n k "take j s" "drop j s"] by simp

lemma runs_below_append:
  "runs_below P n k a \<Longrightarrow> b = [] \<or> \<not> P (hd b) \<Longrightarrow> runs_below P n 0 b \<Longrightarrow>
   runs_below P n k (a @ b)"
proof (induction a arbitrary: k)
  case Nil
  then show ?case using runs_below_head [of b P n k] by simp
next
  case (Cons x a)
  then show ?case by (auto split: if_splits)
qed

lemma py_strip_decomp: "\<exists>a b. s = a @ py_strip s @ b"
proof -
  define d where "d = dropWhile py_isspace s"
  have "s = takeWhile py_isspace s @ d"
    by (simp add: d_def)
  moreover have "d = py_strip s @ rev (takeWhile py_isspace (rev d))"
  proof -
    have "py_strip s @ rev (takeWhile py_isspace (rev d))
            = rev (takeWhile py_isspace (rev d) @ dropWhile py_isspace (rev d))"
      by (simp only: rev_append py_strip_def d_def)
    also have "\<dots> = d" by simp
    finally show ?thesis by simp
  qed
  ultimately show ?thesis by metis
qed

lemma runs_below_strip: "runs_below P n 0 s \<Longrightarrow> runs_below P n 0 (py_strip s)"
proof -
  assume rb: "runs_below P n 0 s"
  obtain a b where s: "s = a @ py_strip s @ b"
    using py_strip_decomp by blast
  from rb s have "runs_below P n 0 (a @ py_strip s @ b)" by simp
  then have "runs_below P n 0 (py_strip s @ b)" by (rule runs_below_suffix)
  then show ?thesis by (rule runs_below_prefix)
qed

lemma set_py_strip: "set (py_strip s) \<subseteq> set s"
proof -
  obtain a b where s: "s = a @ py_strip s @ b"
    using py_strip_decomp by blast
  have "set (py_strip s) \<subseteq> set (a @ py_strip s @ b)" by auto
  with s show ?thesis by simp
qed

lemma trimmed_py_strip: "trimmed (py_strip s)"
  by (metis (no_types, lifting) ext dropWhile_eq_Nil_conv dropWhile_head
    dropWhile_idem dropWhile_last last_rev py_strip_def rev.simps(1)
    rev_rev_ident trimmed_def)

lemma py_strip_trimmed: "trimmed s \<Longrightarrow> py_strip s = s"
  by (metis dropWhile_eq_self_iff hd_rev py_strip_def rev.simps(1)
    rev_rev_ident trimmed_def)


lemma clean_message_content_unfold:
  "clean_message_content s =
     (if max_length < length (pre_truncation s)
      then take max_length (pre_truncation s) @ truncation_mark else pre_truncation s)"
  by (simp add: clean_message_content_def pre_truncation_def Let_def)

lemma set_replace_crlf: "set (replace_crlf s) \<subseteq> set s"
  by (induction s rule: replace_crlf.induct) auto

lemma replace_crlf_id: "13 \<notin> set s \<Longrightarrow> replace_crlf s = s"
  by (induction s rule: replace_crlf.induct) auto

lemma set_sub_runs: "set (sub_runs P n rep s) \<subseteq> set s \<union> set rep"
proof (induction P n rep s rule: sub_runs.induct)
  case (1 P n rep)
  then show ?case by simp
next
  case (2 P n rep x xs)
  have sub: "set (takeWhile P xs) \<subseteq> set xs" "set (dropWhile P xs) \<subseteq> set xs"
    by (auto dest: set_takeWhileD set_dropWhileD)
  show ?case
  proof (cases "P x")
    case True
    with "2.IH"(1) have "set (sub_runs P n rep (dropWhile P xs)) \<subseteq> set xs \<union> set rep"
      using sub(2) by auto
    with True sub(1) show ?thesis by (auto simp: Let_def)
  next
    case False
    with "2.IH"(2) show ?thesis by auto
  qed
qed

lemma no_stripped_char_normalised:
  "\<forall>c \<in> set (replace_char 13 10 (replace_crlf (remove_char 65279 (remove_char 8203 s)))).
     \<not> stripped_char c"
proof -
  have "set (replace_crlf (remove_char 65279 (remove_char 8203 s))) \<subseteq> set s - {8203, 65279}"
    using set_replace_crlf [of "remove_char 65279 (remove_char 8203 s)"]
    by (auto simp: remove_char_def)
  then show ?thesis
    by (auto simp: replace_char_def stripped_char_def)
qed

lemma clean_inv_default: "clean_inv default_content"
  by (simp add: clean_inv_def default_content_def stripped_char_def is_newline_def is_blank_def
      trimmed_def py_isspace_def)

lemma clean_inv_pre_truncation: "clean_inv (pre_truncation s)"
proof -
  define c3 where "c3 = replace_char 13 10 (replace_crlf (remove_char 65279 (remove_char 8203 s)))"
  define c4 where "c4 = sub_runs is_newline 3 [10, 10] c3"
  define c5 where "c5 = sub_runs is_blank 3 [32, 32] c4"
  define c6 where "c6 = py_strip c5"
  have pre: "pre_truncation s = (if c6 = [] then default_content else c6)"
    by (simp add: pre_truncation_def c3_def c4_def c5_def c6_def)
  have chars3: "\<forall>c \<in> set c3. \<not> stripped_char c"
    unfolding c3_def by (rule no_stripped_char_normalised)
  have "set c6 \<subseteq> set c3 \<union> {10, 32}"
    using set_py_strip [of c5] set_sub_runs [of is_blank 3 "[32, 32]" c4]
      set_sub_runs [of is_newline 3 "[10, 10]" c3]
    by (auto simp: c4_def c5_def c6_def)
  with chars3 have chars6: "\<forall>c \<in> set c6. \<not> stripped_char c"
    by (auto simp: stripped_char_def)
  have "runs_below is_newline 3 0 c4"
    unfolding c4_def by (rule runs_below_sub_runs_same) (simp_all add: is_newline_def)
  then have "runs_below is_newline 3 0 c5"
    unfolding c5_def
    by (intro runs_below_sub_runs_other) (auto simp: is_newline_def is_blank_def)
  then have nl6: "runs_below is_newline 3 0 c6"
    unfolding c6_def by (rule runs_below_strip)
  have "runs_below is_blank 3 0 c5"
    unfolding c5_def by (rule runs_below_sub_runs_same) (simp_all add: is_blank_def)
  then have sp6: "runs_below is_blank 3 0 c6"
    unfolding c6_def by (rule runs_below_strip)
  have tr6: "trimmed c6"
    unfolding c6_def by (rule trimmed_py_strip)
  show ?thesis
  proof (cases "c6 = []")
    case True
    with pre show ?thesis by (simp add: clean_inv_default)
  next
    case False
    with pre chars6 nl6 sp6 tr6 show ?thesis by (simp add: clean_inv_def)
  qed
qed

lemma pre_truncation_fixed: "clean_inv s \<Longrightarrow> pre_truncation s = s"
proof -
  assume inv: "clean_inv s"
  then have chars: "8203 \<notin> set s" "65279 \<notin> set s" "13 \<notin> set s"
    by (auto simp: clean_inv_def stripped_char_def)
  then have "remove_char 65279 (remove_char 8203 s) = s"
    by (auto simp: remove_char_def filter_id_conv)
  moreover have "replace_char 13 10 (replace_crlf s) = s"
    using chars(3) by (auto simp: replace_crlf_id replace_char_def intro: map_idI)
  moreover have "sub_runs is_newline 3 [10, 10] s = s"
    using inv by (auto simp: clean_inv_def intro: sub_runs_fixed)
  moreover have "sub_runs is_blank 3 [32, 32] s = s"
    using inv by (auto simp: clean_inv_def intro: sub_runs_fixed)
  moreover have "py_strip s = s"
    using inv by (simp add: clean_inv_def py_strip_trimmed)
  moreover have "s \<noteq> []"
    using inv by (simp add: clean_inv_def)
  ultimately show ?thesis by (simp add: pre_truncation_def)
qed

lemma clean_inv_truncated:
  assumes inv: "clean_inv c"
  shows "clean_inv (take max_length c @ truncation_mark)"
proof -
  have mark: "truncation_mark = [46, 46, 46, 40, 20869, 23481, 36807, 38271, 24050, 25130, 26029, 41]"
    by (simp add: truncation_mark_def u_def)
  have "\<forall>x \<in> set (take max_length c). \<not> stripped_char x"
    using inv by (auto simp: clean_inv_def dest: in_set_takeD)
  moreover have "\<forall>x \<in> set truncation_mark. \<not> stripped_char x"
    by (simp add: mark stripped_char_def)
  ultimately have chars: "\<forall>x \<in> set (take max_length c @ truncation_mark). \<not> stripped_char x"
    by auto
  have nl: "runs_below is_newline 3 0 (take max_length c @ truncation_mark)"
    using inv by (intro runs_below_append runs_below_take)
      (simp_all add: clean_inv_def mark is_newline_def)
  have sp: "runs_below is_blank 3 0 (take max_length c @ truncation_mark)"
    using inv by (intro runs_below_append runs_below_take)
      (simp_all add: clean_inv_def mark is_blank_def)
  from inv have "c \<noteq> []" "\<not> py_isspace (hd c)"
    by (auto simp: clean_inv_def trimmed_def)
  then have "hd (take max_length c @ truncation_mark) = hd c"
    by (cases c) (simp_all add: max_length_def)
  moreover have "last (take max_length c @ truncation_mark) = 41"
    by (simp add: mark)
  ultimately have "trimmed (take max_length c @ truncation_mark)"
    using \<open>\<not> py_isspace (hd c)\<close> by (simp add: trimmed_def py_isspace_def)
  with chars nl sp show ?thesis by (simp add: clean_inv_def mark)
qed

lemma clean_inv_clean: "clean_inv (clean_message_content s)"
  by (simp add: clean_message_content_unfold clean_inv_pre_truncation clean_inv_truncated)

lemma clean_message_content_twice:
  "clean_message_content (clean_message_content s) = clean_message_content s"
proof -
  define c where "c = pre_truncation s"
  have inv: "clean_inv c"
    unfolding c_def by (rule clean_inv_pre_truncation)
  show ?thesis
  proof (cases "max_length < length c")
    case False
    then have "clean_message_content s = c"
      by (simp add: clean_message_content_unfold c_def)
    moreover have "clean_message_content c = c"
      using False inv by (simp add: clean_message_content_unfold pre_truncation_fixed)
    ultimately show ?thesis by simp
  next
    case True
    define t where "t = take max_length c @ truncation_mark"
    from True have out: "clean_message_content s = t"
      by (simp add: clean_message_content_unfold c_def t_def)
    have "clean_inv t"
      unfolding t_def using inv by (rule clean_inv_truncated)
    then have fixed: "pre_truncation t = t"
      by (rule pre_truncation_fixed)
    from True have "length (take max_length c) = max_length" by simp
    then have "take max_length t = take max_length c" and "max_length < length t"
      by (simp_all add: t_def truncation_mark_def u_def)
    with fixed have "clean_message_content t = t"
      by (simp add: clean_message_content_unfold t_def)
    with out show ?thesis by simp
  qed
qed

lemma clean_message_content_not_Nil: "clean_message_content s \<noteq> []"
  using clean_inv_clean [of s] by (simp add: clean_inv_def)

text \<open>
  \<^bold>\<open>C6.\<close>  The light cleaning \<^verbatim>\<open>_clean_message_content\<close> is idempotent: cleaning a
  cleaned string changes nothing; and its result is never the empty string, the default
  content taking the place of an empty one.  The function is total on strings: none of
  its steps has a failing branch, so it never raises.
\<close>

theorem light_clean_idempotent_nonempty:
  "clean_message_content (clean_message_content m) = clean_message_content m \<and>
   clean_message_content m \<noteq> []"
  by (simp add: clean_message_content_twice clean_message_content_not_Nil)

subsection \<open>What a call adds to the list of attempts\<close>

lemma get_input_only_tokens_state:
  "snd (get_input_only_tokens w self st om hdrs api_url t) =
     st\<lparr>attempts := attempts st @
        [HttpPost \<lparr>url = api_url, headers = hdrs, payload = counting_request self om,
                   timeout = min 10 t, stream_body = False\<rparr>]\<rparr>"
  by (simp add: get_input_only_tokens_def requests_post_def split: sum.splits)

lemma get_input_only_tokens_stateD:
  "get_input_only_tokens w self st om hdrs api_url t = (x, st') \<Longrightarrow>
   st' = st\<lparr>attempts := attempts st @
        [HttpPost \<lparr>url = api_url, headers = hdrs, payload = counting_request self om,
                   timeout = min 10 t, stream_body = False\<rparr>]\<rparr>"
  using get_input_only_tokens_state [of w self st om hdrs api_url t] by simp

lemma get_accurate_tokens_state:
  "\<exists>ps. snd (get_accurate_tokens_via_complete_conversation w self st om answer hdrs api_url t) =
          st\<lparr>attempts := attempts st @ ps\<rparr> \<and>
        1 \<le> length ps \<and> length ps \<le> 2 \<and> list_all is_post ps"
  by (auto simp: get_accurate_tokens_via_complete_conversation_def requests_post_def Let_def
      split: sum.splits prod.splits bool.splits dest!: get_input_only_tokens_stateD)

lemma get_accurate_tokens_stateD:
  "get_accurate_tokens_via_complete_conversation w self st om answer hdrs api_url t = (x, st') \<Longrightarrow>
   \<exists>ps. st' = st\<lparr>attempts := attempts st @ ps\<rparr> \<and>
        1 \<le> length ps \<and> length ps \<le> 2 \<and> list_all is_post ps"
  using get_accurate_tokens_state [of w self st om answer hdrs api_url t] by simp

lemma direct_api_call_stream_state:
  "direct_api_call_stream w self st ms hdrs api_url = (res, st') \<Longrightarrow>
   \<exists>ps. attempts st' = attempts st @ ps \<and> ledger st' = ledger st \<and>
        1 \<le> length ps \<and> length ps \<le> 3 \<and> list_all is_post ps \<and>
        (isl res \<longrightarrow> length ps = 1 \<and> last_api_usage st' = last_api_usage st)"
  by (auto simp: direct_api_call_stream_def requests_post_def
      split: sum.splits prod.splits if_splits dest!: get_accurate_tokens_stateD)

lemma direct_api_call_state:
  "direct_api_call w self st messages True = (res, st') \<Longrightarrow>
   \<exists>ps. attempts st' = attempts st @ ps \<and> ledger st' = ledger st \<and>
        length ps \<le> 3 \<and> list_all is_post ps \<and>
        (isl res \<longrightarrow> length ps \<le> 1 \<and> last_api_usage st' = last_api_usage st)"
  by (auto simp: direct_api_call_def split: option.splits dest!: direct_api_call_stream_state)

lemma track_tokens_attempts: "attempts (track_tokens w st messages result) = attempts st"
  by (auto simp: track_tokens_def split: sum.splits prod.splits option.splits bool.splits)

lemma super_generate_state:
  "super_generate w self st msgs stop kw = (res, st') \<Longrightarrow>
   st' = st\<lparr>attempts := attempts st @
           replicate (Suc (min (high_level_retries w (length (attempts st))) (max_retries self)))
             (HighLevel msgs stop kw)\<rparr> \<and>
   res = (case high_level_answer w (length (attempts st)) of
            Inl m \<Rightarrow> Inl (Exception m)
          | Inr result \<Rightarrow> Inr result)"
  by (auto simp: super_generate_def)

lemma super_generate_requests:
  "super_generate w self st msgs stop kw = (res, st') \<Longrightarrow>
   \<exists>k\<le>max_retries self. attempts st' = attempts st @ replicate (Suc k) (HighLevel msgs stop kw)"
  by (auto simp: super_generate_def intro!: exI [where x = "min (high_level_retries w (length (attempts st))) (max_retries self)"])

lemma filter_posts: "list_all is_post ps \<Longrightarrow> filter is_post ps = ps \<and> filter (\<lambda>a. \<not> is_post a) ps = []"
  by (induction ps) auto

lemma filter_high_level:
  "filter is_post (replicate n (HighLevel ms stop kw)) = []"
  "filter (\<lambda>a. \<not> is_post a) (replicate n (HighLevel ms stop kw)) = replicate n (HighLevel ms stop kw)"
  by (induction n) auto

lemma primary_attempt_state:
  "(if W then direct_api_call w self st ms True else super_generate w self st ms stop kw) = (res, st1) \<Longrightarrow>
   \<exists>ps. attempts st1 = attempts st @ ps \<and>
        (W \<longrightarrow> list_all is_post ps \<and> length ps \<le> 3 \<and> (isl res \<longrightarrow> length ps \<le> 1)) \<and>
        (\<not> W \<longrightarrow> (\<exists>k\<le>max_retries self. ps = replicate (Suc k) (HighLevel ms stop kw)))"
  by (cases W) (auto dest!: direct_api_call_state super_generate_requests)

lemma generate_attempts_shape:
  "\<exists>ps. attempts (snd (generate w self st messages stop kwargs)) = attempts st @ ps \<and>
        length (filter (\<lambda>a. \<not> is_post a) ps) \<le> 2 * (1 + max_retries self) \<and>
        length (filter is_post ps) \<le> 4 \<and>
        length ps \<le> 2 * (1 + max_retries self) + 3"
proof -
  define kw where "kw = pop_key (u ''analysis_type'') (pop_key (u ''session_id'') kwargs)"
  define W where "W \<longleftrightarrow> user_wants_streaming self \<or>
    (case map_of kw (u ''stream'') of Some (PBool b) \<Rightarrow> b | _ \<Rightarrow> False)"
  define mr where "mr = max_retries self"
  obtain r1 st1 where first:
    "(if W then direct_api_call w self st messages True else super_generate w self st messages stop kw)
       = (r1, st1)"
    by fastforce
  from primary_attempt_state [OF first] obtain ps1 where
    ps1: "attempts st1 = attempts st @ ps1"
      "W \<Longrightarrow> list_all is_post ps1 \<and> length ps1 \<le> 3 \<and> (isl r1 \<longrightarrow> length ps1 \<le> 1)"
      "\<not> W \<Longrightarrow> \<exists>k\<le>mr. ps1 = replicate (Suc k) (HighLevel messages stop kw)"
    unfolding mr_def by blast
  have count1: "length (filter (\<lambda>a. \<not> is_post a) ps1) \<le> 1 + mr"
    "length (filter is_post ps1) \<le> 3" "length ps1 \<le> 2 * (1 + mr) + 3"
    using ps1(2,3) filter_posts [of ps1] by (cases W; auto simp: filter_high_level)+
  have count1_failed: "length (filter is_post ps1) \<le> 1" "length ps1 \<le> 1 + mr" if "isl r1"
    using ps1(2,3) that filter_posts [of ps1] by (cases W; auto simp: filter_high_level)+
  show ?thesis
  proof (cases r1)
    case (Inr result)
    with first have "attempts (snd (generate w self st messages stop kwargs)) = attempts st1"
      by (simp add: generate_def Let_def kw_def [symmetric] W_def [symmetric] track_tokens_attempts)
    with ps1(1) count1 show ?thesis unfolding mr_def by auto
  next
    case (Inl e)
    then have failed: "isl r1" by simp
    show ?thesis
    proof (cases "token_parse_error e")
      case True
      obtain r2 st2 where retry:
        "super_generate w self st1 (map clean_for_retry messages) stop kw = (r2, st2)"
        by fastforce
      from super_generate_requests [OF retry] ps1(1) obtain k where
        k: "k \<le> mr"
        and two: "attempts st2 = attempts st @ ps1 @
          replicate (Suc k) (HighLevel (map clean_for_retry messages) stop kw)"
        unfolding mr_def by auto
      obtain r3 st3 where direct: "direct_api_call w self st2 messages True = (r3, st3)"
        by fastforce
      from direct_api_call_state [OF direct] two obtain ps3 where
        ps3: "attempts st3 = attempts st @ ps1 @
            replicate (Suc k) (HighLevel (map clean_for_retry messages) stop kw) @ ps3"
          "length ps3 \<le> 3" "list_all is_post ps3"
        by auto
      have "attempts (snd (generate w self st messages stop kwargs)) = attempts st2 \<or>
            attempts (snd (generate w self st messages stop kwargs)) = attempts st3"
        using first Inl True retry direct
        by (auto simp: generate_def Let_def kw_def [symmetric] W_def [symmetric]
            track_tokens_attempts split: sum.splits)
      then show ?thesis
      proof
        assume "attempts (snd (generate w self st messages stop kwargs)) = attempts st2"
        with two k count1_failed [OF failed] count1(1) show ?thesis
          unfolding mr_def by (auto simp: filter_high_level)
      next
        assume "attempts (snd (generate w self st messages stop kwargs)) = attempts st3"
        with ps3 k count1_failed [OF failed] count1(1) filter_posts [OF ps3(3)] show ?thesis
          unfolding mr_def by (auto simp: filter_high_level)
      qed
    next
      case False
      obtain r3 st3 where direct: "direct_api_call w self st1 messages True = (r3, st3)"
        by fastforce
      from direct_api_call_state [OF direct] ps1(1) obtain ps3 where
        ps3: "attempts st3 = attempts st @ ps1 @ ps3" "length ps3 \<le> 3" "list_all is_post ps3"
        by auto
      have "attempts (snd (generate w self st messages stop kwargs)) = attempts st1 \<or>
            attempts (snd (generate w self st messages stop kwargs)) = attempts st3"
        using first Inl False direct
        by (auto simp: generate_def Let_def kw_def [symmetric] W_def [symmetric]
            track_tokens_attempts split: sum.splits)
      then show ?thesis
      proof
        assume "attempts (snd (generate w self st messages stop kwargs)) = attempts st1"
        with ps1(1) count1 show ?thesis unfolding mr_def by auto
      next
        assume "attempts (snd (generate w self st messages stop kwargs)) = attempts st3"
        with ps3 count1_failed [OF failed] count1(1) filter_posts [OF ps3(3)] show ?thesis
          unfolding mr_def by auto
      qed
    qed
  qed
qed

text \<open>
  \<^bold>\<open>C3\<close> (as amended).  Whatever the upstream answers, one call of \<^verbatim>\<open>_generate\<close>
  only appends to the log of network attempts.  It calls the high-level path at most
  twice, and the wrapped client sends at most \<open>1 + max_retries\<close> requests for each
  call; the adapter itself sends at most four requests (those of the direct path and
  its two measurement requests).  The constructor sets \<^verbatim>\<open>max_retries=2\<close>, so an
  adapter as constructed sends at most nine requests in all, at most six of them
  through the wrapped client.
\<close>

theorem generate_attempts_bound:
  "(\<exists>ps. attempts (snd (generate w self st messages stop kwargs)) = attempts st @ ps \<and>
         length (filter (\<lambda>a. \<not> is_post a) ps) \<le> 2 * (1 + max_retries self) \<and>
         length (filter is_post ps) \<le> 4 \<and>
         length ps \<le> 2 * (1 + max_retries self) + 3) \<and>
   max_retries (init model api_key base_url temp max_toks sid streaming_kw init_kwargs phm) = 2 \<and>
   (\<exists>ps. attempts (snd (generate w
              (init model api_key base_url temp max_toks sid streaming_kw init_kwargs phm)
              st messages stop kwargs)) = attempts st @ ps \<and>
         length (filter (\<lambda>a. \<not> is_post a) ps) \<le> 6 \<and>
         length (filter is_post ps) \<le> 4 \<and>
         length ps \<le> 9)"
proof -
  have two: "max_retries (init model api_key base_url temp max_toks sid streaming_kw init_kwargs phm) = 2"
    by (simp add: init_def Let_def)
  from generate_attempts_shape
    [of w "init model api_key base_url temp max_toks sid streaming_kw init_kwargs phm"
       st messages stop kwargs]
  have "\<exists>ps. attempts (snd (generate w
              (init model api_key base_url temp max_toks sid streaming_kw init_kwargs phm)
              st messages stop kwargs)) = attempts st @ ps \<and>
         length (filter (\<lambda>a. \<not> is_post a) ps) \<le> 6 \<and>
         length (filter is_post ps) \<le> 4 \<and>
         length ps \<le> 9"
    unfolding two by simp
  with two generate_attempts_shape [of w self st messages stop kwargs] show ?thesis
    by blast
qed

subsection \<open>Evaluating the concrete runs\<close>

lemmas run_defs =
  generate_def direct_api_call_def direct_api_call_stream_def direct_api_call_plain_def
  super_generate_def requests_post_def get_accurate_tokens_via_complete_conversation_def
  get_input_only_tokens_def split_tokens_def get_api_key_def get_base_url_def
  sample_adapter_def init_def initial_state_def sample_messages_def padded_messages_def
  replay_world_def refusing_world_def failing_world_def inline_usage_world_def
  nested_world_def plain_world_def metadata_world_def unreachable_world_def
  server_error_world_def upstream_def text_answer_def
  stream_response_def json_response_def error_response_def prompt_count_def
  parse_failure_def token_parse_error_def server_error_def is_token_parse_text_def
  pop_key_def Let_def

lemmas sample_defs =
  sample_lines_def usage_lines_def sample_loads_def payload_A_def payload_B_def
  payload_A_usage_def chunk_text_def delta_chunk_def inline_usage_def

lemma sample_lines_decoded: "decode_lines sample_loads sample_lines [] [] = Inr (u ''AB'', [])"
  by (simp add: sample_defs u_def)

lemma usage_lines_decoded: "decode_lines sample_loads usage_lines [] [] = Inr (u ''A'', [])"
  by (simp add: sample_defs u_def)

lemma parse_failure_class:
  "token_parse_error (Exception parse_failure)" "\<not> server_error (Exception parse_failure)"
  by (simp_all add: token_parse_error_def server_error_def parse_failure_def
      is_token_parse_text_def u_def sublist_Cons_right py_lower_def)

text \<open>
  The claim bounds the attempts by four.  On an upstream that reports malformed input on
  the high-level path twice, each time at the first request, and then serves the stream
  and both measurements, the call makes five.
\<close>

theorem four_attempts_counterexample:
  "length (attempts (snd (generate (replay_world 2) (sample_adapter None []) initial_state
     sample_messages None []))) = 5"
  by (simp add: run_defs sample_lines_decoded track_tokens_attempts u_def sublist_Cons_right)

text \<open>The bound of nine is reached when the upstream answers the requests of the
  high-level path with status 500, which the wrapped client repeats.\<close>

lemma nine_requests_run:
  "map is_post (attempts (snd (generate failing_world (sample_adapter None []) initial_state
     sample_messages None []))) =
   [False, False, False, False, False, False, True, True, True]"
  by (simp add: run_defs sample_lines_decoded track_tokens_attempts u_def sublist_Cons_right
      numeral_eq_Suc)

subsection \<open>Replay measurement\<close>

lemma py_contains_lookup: "map_of kvs k = Some v \<Longrightarrow> k \<in> fst ` set kvs"
  by (auto dest!: map_of_SomeD intro: image_eqI [where x = "(k, v)"])

lemma split_tokens_counts:
  "map_of u2 (u ''prompt_tokens'') = Some (JInt b) \<Longrightarrow>
   split_tokens (JInt a) (Some (JObj u2)) =
     (if 0 < a - b
      then Some \<lparr>prompt_tokens = JInt b, completion_tokens = JInt (a - b), total_tokens = JInt a\<rparr>
      else None)"
  by (auto simp: split_tokens_def)

lemma get_input_only_tokens_usage:
  assumes "post_answer w (length (attempts st)) = Inr r2" "status_code r2 = 200"
    "body r2 = Inr (JObj d2)" "map_of d2 (u ''usage'') = Some us"
  shows "fst (get_input_only_tokens w self st om hdrs api_url t) = Some us"
  using assms by (simp add: get_input_only_tokens_def requests_post_def py_contains_lookup)

lemma get_accurate_tokens_counts:
  assumes "post_answer w (length (attempts st)) = Inr r1" "status_code r1 = 200"
    "body r1 = Inr (JObj d1)" "map_of d1 (u ''usage'') = Some (JObj u1)"
    "map_of u1 (u ''prompt_tokens'') = Some (JInt a)"
    and "post_answer w (length (attempts st) + 1) = Inr r2" "status_code r2 = 200"
    "body r2 = Inr (JObj d2)" "map_of d2 (u ''usage'') = Some (JObj u2)"
    "map_of u2 (u ''prompt_tokens'') = Some (JInt b)"
  shows "get_accurate_tokens_via_complete_conversation w self st om answer hdrs api_url t =
     (if 0 < a - b
      then Some \<lparr>prompt_tokens = JInt b, completion_tokens = JInt (a - b), total_tokens = JInt a\<rparr>
      else None,
      st\<lparr>attempts := attempts st @
        [HttpPost \<lparr>url = api_url, headers = hdrs,
                   payload = counting_request self
                     (om @ [\<lparr>role = u ''assistant'', content = answer\<rparr>]),
                   timeout = min 15 t, stream_body = False\<rparr>,
         HttpPost \<lparr>url = api_url, headers = hdrs, payload = counting_request self om,
                   timeout = min 10 t, stream_body = False\<rparr>]\<rparr>)"
proof -
  let ?p1 = "\<lparr>url = api_url, headers = hdrs,
       payload = counting_request self (om @ [\<lparr>role = u ''assistant'', content = answer\<rparr>]),
       timeout = min 15 t, stream_body = False\<rparr>"
  let ?st1 = "st\<lparr>attempts := attempts st @ [HttpPost ?p1]\<rparr>"
  have same: "map (\<lambda>msg. \<lparr>role = role msg, content = content msg\<rparr>) om = om"
    by (induction om) simp_all
  have len: "length (attempts ?st1) = length (attempts st) + 1"
    by simp
  have io: "fst (get_input_only_tokens w self ?st1 om hdrs api_url t) = Some (JObj u2)"
    using assms(6-9) by (intro get_input_only_tokens_usage) (simp_all only: len)
  obtain x st2 where eq: "get_input_only_tokens w self ?st1 om hdrs api_url t = (x, st2)"
    by fastforce
  with io have x: "x = Some (JObj u2)" by simp
  from get_input_only_tokens_stateD [OF eq]
  have st2: "st2 = st\<lparr>attempts := attempts st @
        [HttpPost ?p1,
         HttpPost \<lparr>url = api_url, headers = hdrs, payload = counting_request self om,
                   timeout = min 10 t, stream_body = False\<rparr>]\<rparr>"
    by simp
  have "get_accurate_tokens_via_complete_conversation w self st om answer hdrs api_url t =
          (split_tokens (JInt a) x, st2)"
    using assms(1-5) eq
    by (simp add: get_accurate_tokens_via_complete_conversation_def requests_post_def
        py_contains_lookup Let_def same)
  with x st2 split_tokens_counts [OF assms(10), of a] show ?thesis
    by simp
qed

text \<open>
  \<^bold>\<open>C1.\<close>  A streaming call of the direct path whose stream decodes to \<open>answer\<close>
  sends two measurement requests after the streaming request: the first carries the
  original messages followed by the answer as an assistant turn, the second the original
  messages alone, both with \<^verbatim>\<open>max_tokens\<close> 1 and \<^verbatim>\<open>stream\<close> false.  When both are
  answered with status 200 and the prompt-token counts \<open>a\<close> (to the first) and \<open>b\<close> (to
  the second), the answer is returned; if \<open>a - b > 0\<close> the usage stored is
  \<open>{prompt_tokens: b, completion_tokens: a - b, total_tokens: a}\<close>; if \<open>a - b \<le> 0\<close>
  the measurement yields no record and the usage stored is the estimate from the lengths
  of the texts.
\<close>

theorem replay_measurement_usage:
  fixes a b :: int
  assumes main: "post_answer w (length (attempts st)) = Inr r" "status_code r = 200"
      "decode_lines (json_loads w) (iter_lines r) [] [] = Inr (answer, warned)"
    and with_answer: "post_answer w (length (attempts st) + 1) = Inr r1" "status_code r1 = 200"
      "body r1 = Inr (JObj d1)" "map_of d1 (u ''usage'') = Some (JObj u1)"
      "map_of u1 (u ''prompt_tokens'') = Some (JInt a)"
    and input_only: "post_answer w (length (attempts st) + 2) = Inr r2" "status_code r2 = 200"
      "body r2 = Inr (JObj d2)" "map_of d2 (u ''usage'') = Some (JObj u2)"
      "map_of u2 (u ''prompt_tokens'') = Some (JInt b)"
  shows "fst (direct_api_call_stream w self st msgs hdrs api_url) =
           Inr \<lparr>result_content = Text answer, llm_output = JNull\<rparr> \<and>
         attempts (snd (direct_api_call_stream w self st msgs hdrs api_url)) =
           attempts st @
           [HttpPost \<lparr>url = api_url, headers = hdrs, payload = request_data self msgs True,
                      timeout = request_timeout self, stream_body = True\<rparr>,
            HttpPost \<lparr>url = api_url, headers = hdrs,
                      payload =
                        [(u ''model'', RStr (model_or_name self)),
                         (u ''messages'',
                          RMessages (msgs @ [\<lparr>role = u ''assistant'', content = answer\<rparr>])),
                         (u ''temperature'', RNum (1 / 10)), (u ''max_tokens'', RInt 1),
                         (u ''stream'', RBool False)],
                      timeout = min 15 (request_timeout self), stream_body = False\<rparr>,
            HttpPost \<lparr>url = api_url, headers = hdrs,
                      payload =
                        [(u ''model'', RStr (model_or_name self)),
                         (u ''messages'', RMessages msgs),
                         (u ''temperature'', RNum (1 / 10)), (u ''max_tokens'', RInt 1),
                         (u ''stream'', RBool False)],
                      timeout = min 10 (request_timeout self), stream_body = False\<rparr>] \<and>
         last_api_usage (snd (direct_api_call_stream w self st msgs hdrs api_url)) =
           Some (if 0 < a - b
                 then \<lparr>prompt_tokens = JInt b, completion_tokens = JInt (a - b),
                       total_tokens = JInt a\<rparr>
                 else estimated_usage msgs (length answer)) \<and>
         split_tokens (JInt a) (Some (JObj u2)) =
           (if 0 < a - b
            then Some \<lparr>prompt_tokens = JInt b, completion_tokens = JInt (a - b),
                       total_tokens = JInt a\<rparr>
            else None)"
proof -
  let ?p0 = "\<lparr>url = api_url, headers = hdrs, payload = request_data self msgs True,
       timeout = request_timeout self, stream_body = True\<rparr>"
  let ?st1 = "st\<lparr>attempts := attempts st @ [HttpPost ?p0]\<rparr>"
  have post: "requests_post w st ?p0 = (Inr r, ?st1)"
    using main(1) by (simp add: requests_post_def)
  have len: "length (attempts ?st1) = length (attempts st) + 1"
    by simp
  have acc: "get_accurate_tokens_via_complete_conversation w self ?st1 msgs answer hdrs api_url
          (request_timeout self) =
     (if 0 < a - b
      then Some \<lparr>prompt_tokens = JInt b, completion_tokens = JInt (a - b), total_tokens = JInt a\<rparr>
      else None,
      ?st1\<lparr>attempts := attempts ?st1 @
        [HttpPost \<lparr>url = api_url, headers = hdrs,
                   payload = counting_request self
                     (msgs @ [\<lparr>role = u ''assistant'', content = answer\<rparr>]),
                   timeout = min 15 (request_timeout self), stream_body = False\<rparr>,
         HttpPost \<lparr>url = api_url, headers = hdrs, payload = counting_request self msgs,
                   timeout = min 10 (request_timeout self), stream_body = False\<rparr>]\<rparr>)"
    using with_answer input_only
    by (intro get_accurate_tokens_counts [where ?d1.0 = d1 and ?u1.0 = u1 and ?d2.0 = d2 and ?u2.0 = u2])
       (simp_all only: len add.assoc one_add_one)
  have call: "direct_api_call_stream w self st msgs hdrs api_url =
    (Inr \<lparr>result_content = Text answer, llm_output = JNull\<rparr>,
     ?st1\<lparr>attempts := attempts ?st1 @
        [HttpPost \<lparr>url = api_url, headers = hdrs,
                   payload = counting_request self
                     (msgs @ [\<lparr>role = u ''assistant'', content = answer\<rparr>]),
                   timeout = min 15 (request_timeout self), stream_body = False\<rparr>,
         HttpPost \<lparr>url = api_url, headers = hdrs, payload = counting_request self msgs,
                   timeout = min 10 (request_timeout self), stream_body = False\<rparr>],
       last_api_usage :=
         Some (if 0 < a - b
               then \<lparr>prompt_tokens = JInt b, completion_tokens = JInt (a - b),
                     total_tokens = JInt a\<rparr>
               else estimated_usage msgs (length answer))\<rparr>)"
    unfolding direct_api_call_stream_def post using main(2,3) acc by simp
  show ?thesis
    unfolding call using split_tokens_counts [OF input_only(5), of a]
    by (simp add: counting_request_def)
qed

theorem replay_measurement_usage_witness:
  "last_api_usage
     (snd (direct_api_call_stream (replay_world 0) (sample_adapter None []) initial_state
             [\<lparr>role = u ''user'', content = u ''hi''\<rparr>] [] [])) =
   Some \<lparr>prompt_tokens = JInt 25, completion_tokens = JInt 15, total_tokens = JInt 40\<rparr> \<and>
   map (\<lambda>a. case a of HttpPost rq \<Rightarrow> map_of (payload rq) (u ''messages'') | _ \<Rightarrow> None)
     (attempts (snd (direct_api_call_stream (replay_world 0) (sample_adapter None []) initial_state
             [\<lparr>role = u ''user'', content = u ''hi''\<rparr>] [] []))) =
   [Some (RMessages [\<lparr>role = u ''user'', content = u ''hi''\<rparr>]),
    Some (RMessages [\<lparr>role = u ''user'', content = u ''hi''\<rparr>,
                     \<lparr>role = u ''assistant'', content = u ''AB''\<rparr>]),
    Some (RMessages [\<lparr>role = u ''user'', content = u ''hi''\<rparr>])]"
  using replay_measurement_usage
    [where w = "replay_world 0" and st = initial_state and r = "stream_response sample_lines"
       and answer = "u ''AB''" and warned = "[]"
       and ?r1.0 = "json_response 200 (prompt_count 40)"
       and ?d1.0 = "[(u ''usage'', JObj [(u ''prompt_tokens'', JInt 40)])]"
       and ?u1.0 = "[(u ''prompt_tokens'', JInt 40)]" and a = 40
       and ?r2.0 = "json_response 200 (prompt_count 25)"
       and ?d2.0 = "[(u ''usage'', JObj [(u ''prompt_tokens'', JInt 25)])]"
       and ?u2.0 = "[(u ''prompt_tokens'', JInt 25)]" and b = 25
       and self = "sample_adapter None []"
       and msgs = "[\<lparr>role = u ''user'', content = u ''hi''\<rparr>]" and hdrs = "[]"
       and api_url = "[]"]
  by (simp add: replay_world_def upstream_def initial_state_def stream_response_def
      json_response_def prompt_count_def sample_lines_decoded request_data_def u_def)
subsection \<open>Usage records\<close>

text \<open>
  The claim asks of every usage record that its total is the sum of its two counts and
  that no count is negative.  The non-streaming direct call copies the figures of the
  answer's \<^verbatim>\<open>usage\<close> and puts 0 for a missing one: an answer with 12 prompt and 5
  completion tokens and no total gives the record with total 0.  The figures that the
  high-level path reports in \<^verbatim>\<open>llm_output\<close> go to the tracker as they are: an
  answer reporting \<open>- 3\<close> prompt and 8 completion tokens is booked with these.
\<close>

theorem fallback_body_usage_counterexample:
  "last_api_usage (snd (direct_api_call plain_world (sample_adapter None []) initial_state
     sample_messages False)) =
     Some \<lparr>prompt_tokens = JInt 12, completion_tokens = JInt 5, total_tokens = JInt 0\<rparr> \<and>
   (0 :: int) \<noteq> 12 + 5 \<and>
   ledger (snd (generate metadata_world (sample_adapter None []) initial_state
     sample_messages None [])) = [(JInt (- 3), JInt 8)]"
  by (simp add: run_defs plain_body_def message_content_def usage_of_body_def
      reported_usage_def track_tokens_def llm_output_tokens_def some_positive_def u_def)

lemma estimate_tokens_positive: "1 \<le> estimate_tokens n"
  by (simp add: estimate_tokens_def)

lemma some_positive_not_zero:
  "some_positive p c = Inr True \<Longrightarrow> \<not> (py_is_zero p \<and> py_is_zero c)"
  by (cases p; cases c) (auto simp: some_positive_def split: if_splits bool.splits)

lemma track_tokens_reported:
  assumes "llm_output result = JObj out" "map_of out (u ''token_usage'') = Some (JObj tu)"
    and "some_positive (case map_of tu (u ''prompt_tokens'') of Some v \<Rightarrow> v | None \<Rightarrow> JInt 0)
           (case map_of tu (u ''completion_tokens'') of Some v \<Rightarrow> v | None \<Rightarrow> JInt 0) = Inr True"
    and "token_tracking_enabled w"
  shows "ledger (track_tokens w st messages result) =
     ledger st @
     [(case map_of tu (u ''prompt_tokens'') of Some v \<Rightarrow> v | None \<Rightarrow> JInt 0,
       case map_of tu (u ''completion_tokens'') of Some v \<Rightarrow> v | None \<Rightarrow> JInt 0)]"
proof -
  let ?p = "case map_of tu (u ''prompt_tokens'') of Some v \<Rightarrow> v | None \<Rightarrow> JInt 0"
  let ?c = "case map_of tu (u ''completion_tokens'') of Some v \<Rightarrow> v | None \<Rightarrow> JInt 0"
  from assms(2) have "out \<noteq> []" by auto
  with assms(1,2) have read: "llm_output_tokens result = Inr (?p, ?c)"
    by (simp add: llm_output_tokens_def split: option.splits)
  from some_positive_not_zero [OF assms(3)] have nz: "\<not> (py_is_zero ?p \<and> py_is_zero ?c)" .
  show ?thesis
    using nz assms(3,4) by (cases "last_api_usage st") (auto simp: track_tokens_def read)
qed

lemma replay_record_origin:
  assumes "get_accurate_tokens_via_complete_conversation w self st om answer hdrs api_url t =
      (Some rec, st')"
  shows "attempts st' = attempts st @
       [HttpPost \<lparr>url = api_url, headers = hdrs,
                  payload = counting_request self
                    (om @ [\<lparr>role = u ''assistant'', content = answer\<rparr>]),
                  timeout = min 15 t, stream_body = False\<rparr>,
        HttpPost \<lparr>url = api_url, headers = hdrs, payload = counting_request self om,
                  timeout = min 10 t, stream_body = False\<rparr>] \<and>
    (\<exists>r2 d2 us2 p c.
      post_answer w (Suc (length (attempts st))) = Inr r2 \<and> status_code r2 = 200 \<and>
      body r2 = Inr d2 \<and> py_item d2 (u ''usage'') = Inr us2 \<and>
      py_get us2 (u ''prompt_tokens'') (JInt 0) = Inr (prompt_tokens rec) \<and>
      py_int (prompt_tokens rec) = Inr p \<and> completion_tokens rec = JInt c \<and>
      total_tokens rec = JInt (p + c) \<and> 0 < c)"
proof -
  have same: "map (\<lambda>msg. \<lparr>role = role msg, content = content msg\<rparr>) om = om"
    by (induction om) simp_all
  let ?p1 = "\<lparr>url = api_url, headers = hdrs,
       payload = counting_request self
         (map (\<lambda>msg. \<lparr>role = role msg, content = content msg\<rparr>) om @
          [\<lparr>role = u ''assistant'', content = answer\<rparr>]),
       timeout = min 15 t, stream_body = False\<rparr>"
  let ?st1 = "st\<lparr>attempts := attempts st @ [HttpPost ?p1]\<rparr>"
  from assms obtain total io where
    io: "get_input_only_tokens w self ?st1 om hdrs api_url t = (io, st')"
    and split: "split_tokens total io = Some rec"
    by (auto simp: get_accurate_tokens_via_complete_conversation_def requests_post_def Let_def
        split: sum.splits prod.splits bool.splits if_splits)
  from get_input_only_tokens_stateD [OF io]
  have log: "attempts st' = attempts st @
       [HttpPost \<lparr>url = api_url, headers = hdrs,
                  payload = counting_request self
                    (om @ [\<lparr>role = u ''assistant'', content = answer\<rparr>]),
                  timeout = min 15 t, stream_body = False\<rparr>,
        HttpPost \<lparr>url = api_url, headers = hdrs, payload = counting_request self om,
                  timeout = min 10 t, stream_body = False\<rparr>]"
    by (simp add: same)
  from split obtain us2 where us2: "io = Some us2"
    by (cases io) (simp_all add: split_tokens_def)
  from io us2 obtain r2 d2 where
    "post_answer w (Suc (length (attempts st))) = Inr r2" "status_code r2 = 200"
    "body r2 = Inr d2" "py_item d2 (u ''usage'') = Inr us2"
    by (auto simp: get_input_only_tokens_def requests_post_def
        split: sum.splits bool.splits if_splits)
  moreover from split us2 obtain p c where
    "py_get us2 (u ''prompt_tokens'') (JInt 0) = Inr (prompt_tokens rec)"
    "py_int (prompt_tokens rec) = Inr p" "completion_tokens rec = JInt c"
    "total_tokens rec = JInt (p + c)" "0 < c"
    by (auto simp: split_tokens_def split: sum.splits if_splits)
  ultimately show ?thesis using log by blast
qed

text \<open>
  \<^bold>\<open>C8\<close> (as amended).  Four sources of usage figures.  The pair reported by the
  high-level path in \<^verbatim>\<open>llm_output\<close> is handed to the tracker as it came, 0
  standing in for a missing count, whenever one of the two counts is above 0.  The
  record taken from the body of a non-streaming answer of the direct path holds the
  upstream's three figures as they came, 0 for a missing one.  A record of the replay
  measurement has as prompt count the one that the upstream reported in answer to the
  second measurement request, the one with the original messages alone, a completion
  count above 0 and their sum as total.  An
  estimated record has both counts at least 1 and their sum as total.
\<close>

theorem usage_records_consistent:
  "(\<not> user_wants_streaming self \<and>
    map_of (pop_key (u ''analysis_type'') (pop_key (u ''session_id'') kwargs)) (u ''stream'') \<noteq>
      Some (PBool True) \<and>
    high_level_answer w (length (attempts st)) = Inr result \<and>
    llm_output result = JObj out \<and> map_of out (u ''token_usage'') = Some (JObj tu) \<and>
    some_positive (case map_of tu (u ''prompt_tokens'') of Some v \<Rightarrow> v | None \<Rightarrow> JInt 0)
      (case map_of tu (u ''completion_tokens'') of Some v \<Rightarrow> v | None \<Rightarrow> JInt 0) = Inr True \<and>
    token_tracking_enabled w \<longrightarrow>
    ledger (snd (generate w self st messages stop kwargs)) =
      ledger st @
      [(case map_of tu (u ''prompt_tokens'') of Some v \<Rightarrow> v | None \<Rightarrow> JInt 0,
        case map_of tu (u ''completion_tokens'') of Some v \<Rightarrow> v | None \<Rightarrow> JInt 0)]) \<and>
   (get_api_key w self = Some key \<and> post_answer w (length (attempts st)) = Inr r \<and>
    status_code r = 200 \<and> body r = Inr (JObj d) \<and> message_content (JObj d) = Inr c0 \<and>
    map_of d (u ''usage'') = Some (JObj kvs) \<longrightarrow>
    last_api_usage (snd (direct_api_call w self st messages False)) =
      Some \<lparr>prompt_tokens =
              (case map_of kvs (u ''prompt_tokens'') of Some v \<Rightarrow> v | None \<Rightarrow> JInt 0),
            completion_tokens =
              (case map_of kvs (u ''completion_tokens'') of Some v \<Rightarrow> v | None \<Rightarrow> JInt 0),
            total_tokens =
              (case map_of kvs (u ''total_tokens'') of Some v \<Rightarrow> v | None \<Rightarrow> JInt 0)\<rparr>) \<and>
   (get_accurate_tokens_via_complete_conversation w self st om answer hdrs api_url t =
      (Some rec, st') \<longrightarrow>
    attempts st' = attempts st @
      [HttpPost \<lparr>url = api_url, headers = hdrs,
                 payload = counting_request self
                   (om @ [\<lparr>role = u ''assistant'', content = answer\<rparr>]),
                 timeout = min 15 t, stream_body = False\<rparr>,
       HttpPost \<lparr>url = api_url, headers = hdrs, payload = counting_request self om,
                 timeout = min 10 t, stream_body = False\<rparr>] \<and>
    (\<exists>r2 d2 us2 p c.
       post_answer w (Suc (length (attempts st))) = Inr r2 \<and> status_code r2 = 200 \<and>
       body r2 = Inr d2 \<and> py_item d2 (u ''usage'') = Inr us2 \<and>
       py_get us2 (u ''prompt_tokens'') (JInt 0) = Inr (prompt_tokens rec) \<and>
       py_int (prompt_tokens rec) = Inr p \<and> completion_tokens rec = JInt c \<and>
       total_tokens rec = JInt (p + c) \<and> 0 < c)) \<and>
   (\<exists>p c. estimated_usage ms n =
             \<lparr>prompt_tokens = JInt p, completion_tokens = JInt c, total_tokens = JInt (p + c)\<rparr> \<and>
          1 \<le> p \<and> 1 \<le> c)"
proof (intro conjI impI; (elim conjE)?)
  assume plain: "\<not> user_wants_streaming self"
    "map_of (pop_key (u ''analysis_type'') (pop_key (u ''session_id'') kwargs)) (u ''stream'') \<noteq>
      Some (PBool True)"
    and answer: "high_level_answer w (length (attempts st)) = Inr result"
    and reported: "llm_output result = JObj out" "map_of out (u ''token_usage'') = Some (JObj tu)"
      "some_positive (case map_of tu (u ''prompt_tokens'') of Some v \<Rightarrow> v | None \<Rightarrow> JInt 0)
        (case map_of tu (u ''completion_tokens'') of Some v \<Rightarrow> v | None \<Rightarrow> JInt 0) = Inr True"
      "token_tracking_enabled w"
  let ?kw = "pop_key (u ''analysis_type'') (pop_key (u ''session_id'') kwargs)"
  let ?st1 = "snd (super_generate w self st messages stop ?kw)"
  have flag: "(case map_of ?kw (u ''stream'') of Some (PBool b) \<Rightarrow> b | _ \<Rightarrow> False) = False"
    using plain(2) by (auto split: option.splits optval.splits)
  have "generate w self st messages stop kwargs = (Inr result, track_tokens w ?st1 messages result)"
    using plain(1) answer by (simp add: generate_def Let_def flag super_generate_def)
  moreover have "ledger ?st1 = ledger st"
    by (simp add: super_generate_def)
  ultimately show "ledger (snd (generate w self st messages stop kwargs)) =
      ledger st @
      [(case map_of tu (u ''prompt_tokens'') of Some v \<Rightarrow> v | None \<Rightarrow> JInt 0,
        case map_of tu (u ''completion_tokens'') of Some v \<Rightarrow> v | None \<Rightarrow> JInt 0)]"
    using track_tokens_reported [OF reported, of ?st1 messages] by simp
next
  assume "get_api_key w self = Some key" "post_answer w (length (attempts st)) = Inr r"
    "status_code r = 200" "body r = Inr (JObj d)" "message_content (JObj d) = Inr c0"
    "map_of d (u ''usage'') = Some (JObj kvs)"
  then show "last_api_usage (snd (direct_api_call w self st messages False)) =
      Some \<lparr>prompt_tokens =
              (case map_of kvs (u ''prompt_tokens'') of Some v \<Rightarrow> v | None \<Rightarrow> JInt 0),
            completion_tokens =
              (case map_of kvs (u ''completion_tokens'') of Some v \<Rightarrow> v | None \<Rightarrow> JInt 0),
            total_tokens =
              (case map_of kvs (u ''total_tokens'') of Some v \<Rightarrow> v | None \<Rightarrow> JInt 0)\<rparr>"
    by (simp add: direct_api_call_def direct_api_call_plain_def requests_post_def
        py_contains_lookup usage_of_body_def split: option.splits)
next
  assume "get_accurate_tokens_via_complete_conversation w self st om answer hdrs api_url t =
      (Some rec, st')"
  from replay_record_origin [OF this]
  show "attempts st' = attempts st @
      [HttpPost \<lparr>url = api_url, headers = hdrs,
                 payload = counting_request self
                   (om @ [\<lparr>role = u ''assistant'', content = answer\<rparr>]),
                 timeout = min 15 t, stream_body = False\<rparr>,
       HttpPost \<lparr>url = api_url, headers = hdrs, payload = counting_request self om,
                 timeout = min 10 t, stream_body = False\<rparr>]"
    by (rule conjunct1)
next
  assume "get_accurate_tokens_via_complete_conversation w self st om answer hdrs api_url t =
      (Some rec, st')"
  from replay_record_origin [OF this]
  show "\<exists>r2 d2 us2 p c.
       post_answer w (Suc (length (attempts st))) = Inr r2 \<and> status_code r2 = 200 \<and>
       body r2 = Inr d2 \<and> py_item d2 (u ''usage'') = Inr us2 \<and>
       py_get us2 (u ''prompt_tokens'') (JInt 0) = Inr (prompt_tokens rec) \<and>
       py_int (prompt_tokens rec) = Inr p \<and> completion_tokens rec = JInt c \<and>
       total_tokens rec = JInt (p + c) \<and> 0 < c"
    by (rule conjunct2)
next
  show "\<exists>p c. estimated_usage ms n =
             \<lparr>prompt_tokens = JInt p, completion_tokens = JInt c, total_tokens = JInt (p + c)\<rparr> \<and>
          1 \<le> p \<and> 1 \<le> c"
    by (simp add: estimated_usage_def Let_def estimate_tokens_positive)
qed

theorem usage_records_consistent_witness:
  "ledger (snd (generate metadata_world (sample_adapter None []) initial_state
     sample_messages None [])) = [(JInt (- 3), JInt 8)] \<and>
   last_api_usage (snd (direct_api_call plain_world (sample_adapter None []) initial_state
     sample_messages False)) =
     Some \<lparr>prompt_tokens = JInt 12, completion_tokens = JInt 5, total_tokens = JInt 0\<rparr> \<and>
   fst (get_accurate_tokens_via_complete_conversation (replay_world 0) (sample_adapter None [])
          (initial_state\<lparr>attempts := [HighLevel [] None []]\<rparr>) [] (u ''AB'') [] [] 120) =
     Some \<lparr>prompt_tokens = JInt 25, completion_tokens = JInt 15, total_tokens = JInt 40\<rparr> \<and>
   (\<exists>r2 d2 us2 p c.
      post_answer (replay_world 0) 2 = Inr r2 \<and> status_code r2 = 200 \<and>
      body r2 = Inr d2 \<and> py_item d2 (u ''usage'') = Inr us2 \<and>
      py_get us2 (u ''prompt_tokens'') (JInt 0) = Inr (JInt 25) \<and>
      py_int (JInt 25) = Inr p \<and> JInt 15 = JInt c \<and> JInt 40 = JInt (p + c) \<and> 0 < c)"
proof -
  let ?self = "sample_adapter None [] :: nat adapter"
  let ?st = "initial_state\<lparr>attempts := [HighLevel [] None []]\<rparr>"
  let ?rec = "\<lparr>prompt_tokens = JInt 25, completion_tokens = JInt 15, total_tokens = JInt 40\<rparr>"
  have measured: "fst (get_accurate_tokens_via_complete_conversation (replay_world 0) ?self
      ?st [] (u ''AB'') [] [] 120) = Some ?rec"
    by (simp add: run_defs u_def)
  from usage_records_consistent
    [where w = metadata_world and self = ?self and st = initial_state and kwargs = "[]"
       and result = "text_answer (u ''ok'') reported_usage"
       and out = "[(u ''token_usage'',
            JObj [(u ''prompt_tokens'', JInt (- 3)), (u ''completion_tokens'', JInt 8)])]"
       and tu = "[(u ''prompt_tokens'', JInt (- 3)), (u ''completion_tokens'', JInt 8)]"
       and messages = sample_messages and stop = None, THEN conjunct1]
  have embedded: "ledger (snd (generate metadata_world ?self initial_state
     sample_messages None [])) = [(JInt (- 3), JInt 8)]"
    by (simp add: sample_adapter_def init_def Let_def pop_key_def metadata_world_def upstream_def
        text_answer_def reported_usage_def initial_state_def some_positive_def u_def)
  from usage_records_consistent
    [where w = plain_world and self = ?self and st = initial_state and key = "u ''sk-demo''"
       and r = "json_response 200 plain_body"
       and d = "[(u ''choices'', JArr [JObj [(u ''message'', JObj [(u ''content'', JStr (u ''ok''))])]]),
           (u ''usage'', JObj [(u ''prompt_tokens'', JInt 12), (u ''completion_tokens'', JInt 5)])]"
       and ?c0.0 = "JStr (u ''ok'')"
       and kvs = "[(u ''prompt_tokens'', JInt 12), (u ''completion_tokens'', JInt 5)]"
       and messages = sample_messages, THEN conjunct2, THEN conjunct1]
  have body: "last_api_usage (snd (direct_api_call plain_world ?self initial_state
     sample_messages False)) =
     Some \<lparr>prompt_tokens = JInt 12, completion_tokens = JInt 5, total_tokens = JInt 0\<rparr>"
    by (simp add: sample_adapter_def init_def Let_def get_api_key_def plain_world_def upstream_def
        json_response_def plain_body_def message_content_def initial_state_def u_def)
  from usage_records_consistent
    [where w = "replay_world 0" and self = ?self and st = ?st and om = "[]"
       and answer = "u ''AB''" and hdrs = "[]" and api_url = "[]" and t = 120 and rec = ?rec
       and st' = "snd (get_accurate_tokens_via_complete_conversation (replay_world 0) ?self
          ?st [] (u ''AB'') [] [] 120)",
     THEN conjunct2, THEN conjunct2, THEN conjunct1]
    measured
  have replay: "\<exists>r2 d2 us2 p c.
      post_answer (replay_world 0) 2 = Inr r2 \<and> status_code r2 = 200 \<and>
      body r2 = Inr d2 \<and> py_item d2 (u ''usage'') = Inr us2 \<and>
      py_get us2 (u ''prompt_tokens'') (JInt 0) = Inr (JInt 25) \<and>
      py_int (JInt 25) = Inr p \<and> JInt 15 = JInt c \<and> JInt 40 = JInt (p + c) \<and> 0 < c"
    by (simp add: prod_eq_iff initial_state_def numeral_2_eq_2)
  from embedded body measured replay show ?thesis
    by blast
qed
subsection \<open>Stream decoder\<close>

lemma decode_lines_grows:
  "decode_lines loads ls acc warned = Inr (t, ws) \<Longrightarrow> prefix acc t"
proof (induction loads ls acc warned rule: decode_lines.induct)
  case (4 loads decoded_line ls full_content warned)
  then show ?case
    by (auto split: if_splits sum.splits dest: append_prefixD)
qed simp_all

lemma decode_lines_event:
  "p \<noteq> u ''[DONE]'' \<Longrightarrow>
   decode_lines loads (Line (u ''data: '' @ p) # ls) t ws =
     (case loads p of
        Inl e \<Rightarrow> if json_decode_error e then decode_lines loads ls t (ws @ [p]) else Inl e
      | Inr chunk_data \<Rightarrow>
          (case chunk_text chunk_data of
             Inl e \<Rightarrow> Inl e
           | Inr x \<Rightarrow> decode_lines loads ls (t @ x) ws))"
proof -
  have "length (u ''data: '') = 6" "u ''data: '' \<noteq> []"
    by (simp_all add: u_def)
  then show ?thesis if "p \<noteq> u ''[DONE]''"
    using that by (simp cong: sum.case_cong if_cong)
qed

lemma decode_lines_done:
  "decode_lines loads (Line (u ''data: [DONE]'') # ls) t ws = Inr (t, ws)"
  by (simp add: u_def)

lemma chunk_text_delta: "s \<noteq> [] \<Longrightarrow> chunk_text (delta_chunk s) = Inr s"
  by (simp add: chunk_text_def delta_chunk_def u_def)

lemma chunk_text_sample:
  "chunk_text (delta_chunk (u ''A'')) = Inr (u ''A'')"
  "chunk_text (delta_chunk (u ''B'')) = Inr (u ''B'')"
  by (simp_all add: chunk_text_delta u_def)

text \<open>
  What the decoder does tolerate: an event line on which \<^verbatim>\<open>json.loads\<close> raises
  \<^verbatim>\<open>JSONDecodeError\<close> is skipped, with a warning, and decoding goes on with the text
  accumulated so far; a line without the event prefix is passed over likewise; decoding
  stops at the sentinel \<^verbatim>\<open>data: [DONE]\<close>; the text only grows.  An event with the
  delta \<open>A\<close>, a malformed line, an event with the delta \<open>B\<close> and the sentinel give the
  text \<open>AB\<close>, whether the malformed line lacks the prefix or has a payload refused with
  \<^verbatim>\<open>JSONDecodeError\<close>.  Here \<open>pa\<close> and \<open>pb\<close> are payloads that \<^verbatim>\<open>json.loads\<close> reads
  as the chunks carrying these deltas.
\<close>

lemma decoder_skips_json_decode_errors:
  assumes bad: "loads bad = Inl (JSONDecodeError m)" "bad \<noteq> u ''[DONE]''"
    and pa: "loads pa = Inr (delta_chunk (u ''A''))" "pa \<noteq> u ''[DONE]''"
    and pb: "loads pb = Inr (delta_chunk (u ''B''))" "pb \<noteq> u ''[DONE]''"
  shows "decode_lines loads (Line (u ''data: '' @ bad) # rest) acc warned =
           decode_lines loads rest acc (warned @ [bad]) \<and>
         decode_lines loads (Line (u ''malformed-json'') # rest) acc warned =
           decode_lines loads rest acc warned \<and>
         decode_lines loads (Line (u ''data: [DONE]'') # rest) acc warned = Inr (acc, warned) \<and>
         (\<forall>t ws. decode_lines loads rest acc warned = Inr (t, ws) \<longrightarrow> prefix acc t) \<and>
         decode_lines loads
           [Line (u ''data: '' @ pa), Line (u ''malformed-json''), Line (u ''data: '' @ pb),
            Line (u ''data: [DONE]'')] [] [] = Inr (u ''AB'', []) \<and>
         decode_lines loads
           [Line (u ''data: '' @ pa), Line (u ''data: '' @ bad), Line (u ''data: '' @ pb),
            Line (u ''data: [DONE]'')] [] [] = Inr (u ''AB'', [bad])"
proof -
  have step_bad: "decode_lines loads (Line (u ''data: '' @ bad) # ls) t ws =
      decode_lines loads ls t (ws @ [bad])" for ls t ws
    using bad by (simp add: decode_lines_event del: decode_lines.simps(4))
  have step_plain: "decode_lines loads (Line (u ''malformed-json'') # ls) t ws =
      decode_lines loads ls t ws" for ls t ws
    by (simp add: u_def)
  have step_a: "decode_lines loads (Line (u ''data: '' @ pa) # ls) t ws =
      decode_lines loads ls (t @ u ''A'') ws" for ls t ws
    using pa by (simp add: decode_lines_event chunk_text_sample del: decode_lines.simps(4))
  have step_b: "decode_lines loads (Line (u ''data: '' @ pb) # ls) t ws =
      decode_lines loads ls (t @ u ''B'') ws" for ls t ws
    using pb by (simp add: decode_lines_event chunk_text_sample del: decode_lines.simps(4))
  have ab: "u ''A'' @ u ''B'' = u ''AB''"
    by (simp add: u_def)
  show ?thesis
    using decode_lines_grows [of loads rest acc warned]
    by (simp only: step_bad step_plain decode_lines_done step_a step_b append_Nil ab) simp
qed

lemma deep_payload_other:
  "deep_payload \<noteq> payload_A" "deep_payload \<noteq> payload_B" "deep_payload \<noteq> payload_A_usage"
  "deep_payload \<noteq> u ''[DONE]''"
proof -
  have "hd deep_payload = 91"
    by (simp add: deep_payload_def)
  moreover have "hd payload_A = 123" "hd payload_B = 123" "hd payload_A_usage = 123"
    by (simp_all add: payload_A_def payload_B_def payload_A_usage_def u_def)
  moreover have "length deep_payload = 100000" "length (u ''[DONE]'') = 6"
    by (simp_all add: deep_payload_def u_def)
  ultimately show "deep_payload \<noteq> payload_A" "deep_payload \<noteq> payload_B"
    "deep_payload \<noteq> payload_A_usage" "deep_payload \<noteq> u ''[DONE]''"
    by auto
qed

lemma payload_not_done: "payload_A \<noteq> u ''[DONE]''" "payload_B \<noteq> u ''[DONE]''"
  by (simp_all add: payload_A_def payload_B_def u_def)

text \<open>
  \<^bold>\<open>C5.\<close>  The claim has every event line that fails to parse skipped, with the
  text read so far kept.  The decoder skips a line only when \<^verbatim>\<open>json.loads\<close> raises
  \<^verbatim>\<open>JSONDecodeError\<close>.  On the stream of an event with the delta \<open>A\<close>, an event
  whose payload is a hundred thousand opening brackets, an event with the delta \<open>B\<close>
  and the sentinel, \<^verbatim>\<open>json.loads\<close> raises \<^verbatim>\<open>RecursionError\<close> at the second
  line: the decoder, which had read \<open>A\<close> from the first line, ends with that error,
  and the call of \<^verbatim>\<open>_generate\<close> raises it after its one request.
\<close>

theorem deep_nesting_aborts_stream:
  "decode_lines sample_loads [Line (u ''data: '' @ payload_A)] [] [] = Inr (u ''A'', []) \<and>
   sample_loads deep_payload = Inl RecursionError \<and>
   decode_lines sample_loads nested_lines [] [] = Inl RecursionError \<and>
   fst (generate nested_world (sample_adapter (Some True) []) initial_state
          sample_messages None []) = Inl RecursionError \<and>
   length (attempts (snd (generate nested_world (sample_adapter (Some True) []) initial_state
          sample_messages None []))) = 1"
proof -
  have loads: "sample_loads payload_A = Inr (delta_chunk (u ''A''))"
    "sample_loads deep_payload = Inl RecursionError"
    using deep_payload_other by (simp_all add: sample_loads_def)
  have first: "decode_lines sample_loads [Line (u ''data: '' @ payload_A)] [] [] = Inr (u ''A'', [])"
    by (simp add: decode_lines_event payload_not_done loads chunk_text_sample
        del: decode_lines.simps(4))
  have nested: "decode_lines sample_loads nested_lines [] [] = Inl RecursionError"
    by (simp add: nested_lines_def decode_lines_event payload_not_done deep_payload_other loads
        chunk_text_sample del: decode_lines.simps(4))
  have "generate nested_world (sample_adapter (Some True) []) initial_state sample_messages None [] =
      (Inl RecursionError,
       initial_state\<lparr>attempts :=
         [HttpPost \<lparr>url = u ''http://upstream/v1'' @ u ''/chat/completions'',
                    headers = request_headers (u ''sk-demo''),
                    payload = request_data (sample_adapter (Some True) [])
                      (to_api_messages sample_messages) True,
                    timeout = 120, stream_body = True\<rparr>]\<rparr>)"
    by (simp add: generate_def direct_api_call_def direct_api_call_stream_def requests_post_def
        get_api_key_def get_base_url_def sample_adapter_def init_def initial_state_def
        nested_world_def upstream_def stream_response_def nested token_parse_error_def
        server_error_def pop_key_def Let_def u_def)
  with loads first nested show ?thesis
    by simp
qed
subsection \<open>Inline usage in the stream\<close>

lemma map_of_filter_other:
  "k \<noteq> k0 \<Longrightarrow> map_of (filter (\<lambda>(k', v). k' \<noteq> k0) kvs) k = map_of kvs k"
  by (induction kvs) auto

lemma choices_not_usage: "u ''choices'' \<noteq> u ''usage''"
  by (simp add: u_def)

lemma py_contains_without_usage:
  "py_contains (u ''choices'') (without_usage j) = py_contains (u ''choices'') j"
  using choices_not_usage by (cases j) force+

lemma py_item_without_usage:
  "py_item (without_usage j) (u ''choices'') = py_item j (u ''choices'')"
  by (cases j) (simp_all add: map_of_filter_other [OF choices_not_usage])

lemma chunk_text_without_usage: "chunk_text (without_usage j) = chunk_text j"
  by (simp add: chunk_text_def py_contains_without_usage py_item_without_usage
      cong: sum.case_cong bool.case_cong)

lemma decode_lines_without_usage:
  "decode_lines (\<lambda>s. map_sum id without_usage (loads s)) ls acc warned =
   decode_lines loads ls acc warned"
proof (induction loads ls acc warned rule: decode_lines.induct)
  case (4 loads decoded_line ls full_content warned)
  then show ?case
    by (cases "loads (drop 6 decoded_line)")
       (auto simp: chunk_text_without_usage split: sum.splits)
qed simp_all


lemmas branch_cong = sum.case_cong prod.case_cong bool.case_cong option.case_cong if_cong

lemma usage_blind_simps [simp]:
  "post_answer (usage_blind w) = post_answer w"
  "high_level_answer (usage_blind w) = high_level_answer w"
  "high_level_retries (usage_blind w) = high_level_retries w"
  "validation_text (usage_blind w) = validation_text w"
  "env_api_key (usage_blind w) = env_api_key w"
  "token_tracking_enabled (usage_blind w) = token_tracking_enabled w"
  "json_loads (usage_blind w) = (\<lambda>s. map_sum id without_usage (json_loads w s))"
  by (simp_all add: usage_blind_def)

lemma ai_message_blind [simp]: "ai_message (usage_blind w) c = ai_message w c"
  by (cases c) simp_all

lemma answer_of_content_blind [simp]: "answer_of_content (usage_blind w) = answer_of_content w"
  by (intro ext) (simp add: answer_of_content_def cong: branch_cong)

lemma read_answer_blind [simp]: "read_answer (usage_blind w) = read_answer w"
  by (intro ext) (simp add: read_answer_def cong: branch_cong)

lemma requests_post_blind [simp]: "requests_post (usage_blind w) = requests_post w"
  by (intro ext) (simp add: requests_post_def)

lemma super_generate_blind [simp]: "super_generate (usage_blind w) = super_generate w"
  by (intro ext) (simp add: super_generate_def)

lemma get_input_only_tokens_blind [simp]:
  "get_input_only_tokens (usage_blind w) = get_input_only_tokens w"
  by (intro ext)
     (simp add: get_input_only_tokens_def cong: branch_cong)

lemma get_accurate_tokens_blind [simp]:
  "get_accurate_tokens_via_complete_conversation (usage_blind w) =
   get_accurate_tokens_via_complete_conversation w"
  by (intro ext)
     (simp add: get_accurate_tokens_via_complete_conversation_def
       cong: branch_cong)

lemma direct_api_call_blind [simp]: "direct_api_call (usage_blind w) = direct_api_call w"
  by (intro ext)
     (simp add: direct_api_call_def direct_api_call_stream_def direct_api_call_plain_def
       get_api_key_def decode_lines_without_usage
       cong: branch_cong)

lemma track_tokens_blind [simp]: "track_tokens (usage_blind w) = track_tokens w"
  by (intro ext)
     (simp add: track_tokens_def
       cong: branch_cong)

lemma generate_blind: "generate (usage_blind w) = generate w"
  by (intro ext)
     (simp add: generate_def
       cong: branch_cong)

lemma get_accurate_tokens_result:
  "get_accurate_tokens_via_complete_conversation w self st om answer hdrs api_url t = (x, st') \<Longrightarrow>
   x = None \<or> (\<exists>total i. x = split_tokens total i)"
  by (auto simp: get_accurate_tokens_via_complete_conversation_def requests_post_def Let_def
      split: sum.splits prod.splits bool.splits if_splits)

lemma stream_usage_origin:
  assumes call: "direct_api_call_stream w self st ms hdrs api_url = (Inr result, st')"
  shows "last_api_usage st' =
       Some (estimated_usage ms (content_len (result_content result))) \<or>
   (\<exists>t i us. split_tokens t i = Some us \<and> last_api_usage st' = Some us)"
proof -
  let ?st1 = "st\<lparr>attempts := attempts st @
      [HttpPost \<lparr>url = api_url, headers = hdrs, payload = request_data self ms True,
                 timeout = request_timeout self, stream_body = True\<rparr>]\<rparr>"
  from call obtain r where r: "post_answer w (length (attempts st)) = Inr r" "status_code r = 200"
    by (auto simp: direct_api_call_stream_def requests_post_def split: sum.splits if_splits)
  with call obtain answer warned where
    decoded: "decode_lines (json_loads w) (iter_lines r) [] [] = Inr (answer, warned)"
    by (auto simp: direct_api_call_stream_def requests_post_def split: sum.splits)
  obtain x st2 where
    acc: "get_accurate_tokens_via_complete_conversation w self ?st1 ms answer
           hdrs api_url (request_timeout self) = (x, st2)"
    by fastforce
  from call r decoded acc
  have res: "result = \<lparr>result_content = Text answer, llm_output = JNull\<rparr>"
    and st': "st' = st2\<lparr>last_api_usage :=
        Some (case x of Some us \<Rightarrow> us | None \<Rightarrow> estimated_usage ms (length answer))\<rparr>"
    by (simp_all add: direct_api_call_stream_def requests_post_def)
  show ?thesis
  proof (cases x)
    case None
    with res st' show ?thesis by simp
  next
    case (Some us)
    with get_accurate_tokens_result [OF acc] obtain total i where "split_tokens total i = Some us"
      by auto
    moreover from Some st' have "last_api_usage st' = Some us" by simp
    ultimately show ?thesis by blast
  qed
qed

lemma sample_text_clean: "clean_message_content [104, 105] = [104, 105]"
  by (simp add: clean_message_content_def remove_char_def replace_char_def is_newline_def
      is_blank_def py_strip_def py_isspace_def max_length_def)

text \<open>
  The claim has the decoder capture an inline usage object and the accounting use it
  first.  On a stream whose only chunk carries the usage 12, 5 and 17 the decoder yields
  the text alone; the measurement requests fail, and the figures tracked for the call are
  the estimates 1 and 1.
\<close>

theorem inline_usage_counterexample:
  "decode_lines sample_loads usage_lines [] [] = Inr (u ''A'', []) \<and>
   ledger (snd (generate inline_usage_world (sample_adapter (Some True) []) initial_state
     sample_messages None [])) = [(JInt 1, JInt 1)]"
  by (simp add: run_defs usage_lines_decoded track_tokens_def llm_output_tokens_def
      some_positive_def estimated_usage_def estimate_tokens_def to_api_messages_def
      sample_text_clean u_def)

text \<open>
  \<^bold>\<open>C4\<close> (as amended).  The decoder reads from an event line that parses as JSON
  its text delta only and returns the accumulated text: whatever a call of
  \<^verbatim>\<open>_generate\<close> returns, requests, stores and tracks is the same when every usage
  entry is taken out of the chunks, and so is the decoder's result.  The usage stored by
  a successful streaming call is a record of the replay measurement or the estimate from
  the lengths of the texts.
\<close>

theorem inline_usage_not_read:
  "generate (usage_blind w) self st messages stop kwargs = generate w self st messages stop kwargs \<and>
   decode_lines (json_loads (usage_blind w)) ls acc warned =
     decode_lines (json_loads w) ls acc warned \<and>
   (direct_api_call_stream w self st ms hdrs api_url = (Inr result, st') \<longrightarrow>
      last_api_usage st' = Some (estimated_usage ms (content_len (result_content result))) \<or>
      (\<exists>t i us. split_tokens t i = Some us \<and> last_api_usage st' = Some us))"
  by (simp add: generate_blind decode_lines_without_usage stream_usage_origin)

theorem inline_usage_not_read_witness:
  "generate (usage_blind inline_usage_world) (sample_adapter (Some True) []) initial_state
     sample_messages None [] =
   generate inline_usage_world (sample_adapter (Some True) []) initial_state sample_messages None [] \<and>
   fst (direct_api_call_stream inline_usage_world (sample_adapter (Some True) []) initial_state
          [] [] []) = Inr \<lparr>result_content = Text (u ''A''), llm_output = JNull\<rparr> \<and>
   last_api_usage (snd (direct_api_call_stream inline_usage_world (sample_adapter (Some True) [])
          initial_state [] [] [])) = Some (estimated_usage [] (length (u ''A'')))"
  using inline_usage_not_read
    [where w = inline_usage_world and self = "sample_adapter (Some True) []"
       and st = initial_state and messages = sample_messages and stop = None and kwargs = "[]"
       and ms = "[]" and hdrs = "[]" and api_url = "[]"
       and result = "\<lparr>result_content = Text (u ''A''), llm_output = JNull\<rparr>"
       and st' = "snd (direct_api_call_stream inline_usage_world (sample_adapter (Some True) [])
          initial_state [] [] [])"]
  by (simp add: run_defs usage_lines_decoded)

subsection \<open>The dispatch of \<^verbatim>\<open>_generate\<close>\<close>

lemma first_attempt_same: "first_attempt st st = None"
  by (simp add: first_attempt_def)

lemma first_attempt_append:
  "attempts st' = attempts st @ a # ps \<Longrightarrow> first_attempt st st' = Some a"
  by (simp add: first_attempt_def)

lemma stream_flag:
  "(case m of Some (PBool b) \<Rightarrow> b | _ \<Rightarrow> False) = (m = Some (PBool True))"
  by (auto split: option.splits optval.splits)

lemma direct_api_call_grows:
  "direct_api_call w self st messages True = (res, st') \<Longrightarrow>
   \<exists>ps. attempts st' = attempts st @ ps \<and> list_all is_post ps"
  using direct_api_call_state by blast

lemma config_error_class:
  "\<not> token_parse_error (Exception msg_no_api_key)" "\<not> server_error (Exception msg_no_api_key)"
  by (simp_all add: token_parse_error_def server_error_def is_token_parse_text_def
      msg_no_api_key_def u_def sublist_Cons_right py_lower_def)

lemma generate_after_primary:
  assumes first:
    "(if user_wants_streaming self \<or>
         map_of (pop_key (u ''analysis_type'') (pop_key (u ''session_id'') kwargs)) (u ''stream'') =
           Some (PBool True)
      then direct_api_call w self st messages True
      else super_generate w self st messages stop
             (pop_key (u ''analysis_type'') (pop_key (u ''session_id'') kwargs))) = (r1, st1)"
  shows "\<exists>qs. attempts (snd (generate w self st messages stop kwargs)) = attempts st1 @ qs"
proof (cases r1)
  case (Inr result)
  with first show ?thesis
    by (simp add: generate_def Let_def stream_flag track_tokens_attempts)
next
  case (Inl e)
  let ?kw = "pop_key (u ''analysis_type'') (pop_key (u ''session_id'') kwargs)"
  show ?thesis
  proof (cases "token_parse_error e")
    case True
    obtain r2 st2 where retry:
      "super_generate w self st1 (map clean_for_retry messages) stop ?kw = (r2, st2)"
      by fastforce
    from super_generate_requests [OF retry] obtain k where
      two: "attempts st2 = attempts st1 @
        replicate (Suc k) (HighLevel (map clean_for_retry messages) stop ?kw)"
      by blast
    obtain r3 st3 where direct: "direct_api_call w self st2 messages True = (r3, st3)"
      by fastforce
    from direct_api_call_grows [OF direct] two
    obtain ps where "attempts st3 = attempts st1 @
        replicate (Suc k) (HighLevel (map clean_for_retry messages) stop ?kw) @ ps"
      by auto
    with first Inl True retry direct two show ?thesis
      by (auto simp: generate_def Let_def stream_flag track_tokens_attempts split: sum.splits)
  next
    case False
    obtain r3 st3 where direct: "direct_api_call w self st1 messages True = (r3, st3)"
      by fastforce
    from direct_api_call_grows [OF direct]
    obtain ps where "attempts st3 = attempts st1 @ ps"
      by auto
    with first Inl False direct show ?thesis
      by (auto simp: generate_def Let_def stream_flag track_tokens_attempts split: sum.splits)
  qed
qed

lemma direct_api_call_stream_first:
  "direct_api_call_stream w self st ms hdrs api_url = (res, st') \<Longrightarrow>
   \<exists>ps. attempts st' = attempts st @
          HttpPost \<lparr>url = api_url, headers = hdrs, payload = request_data self ms True,
                    timeout = request_timeout self, stream_body = True\<rparr> # ps"
  by (auto simp: direct_api_call_stream_def requests_post_def
      split: sum.splits prod.splits if_splits dest!: get_accurate_tokens_stateD)

lemma generate_first_attempt:
  "first_attempt st (snd (generate w self st messages stop kwargs)) =
     (if user_wants_streaming self \<or>
         map_of (pop_key (u ''analysis_type'') (pop_key (u ''session_id'') kwargs)) (u ''stream'') =
           Some (PBool True)
      then (case get_api_key w self of
              None \<Rightarrow> None
            | Some api_key \<Rightarrow>
                Some (HttpPost
                        \<lparr>url = get_base_url self @ u ''/chat/completions'',
                         headers = request_headers api_key,
                         payload = request_data self (to_api_messages messages) True,
                         timeout = request_timeout self, stream_body = True\<rparr>))
      else Some (HighLevel messages stop
                   (pop_key (u ''analysis_type'') (pop_key (u ''session_id'') kwargs))))"
proof -
  let ?kw = "pop_key (u ''analysis_type'') (pop_key (u ''session_id'') kwargs)"
  let ?W = "user_wants_streaming self \<or> map_of ?kw (u ''stream'') = Some (PBool True)"
  obtain r1 st1 where first:
    "(if ?W then direct_api_call w self st messages True
      else super_generate w self st messages stop ?kw) = (r1, st1)"
    by fastforce
  from generate_after_primary [OF first] obtain qs where
    after: "attempts (snd (generate w self st messages stop kwargs)) = attempts st1 @ qs"
    by blast
  show ?thesis
  proof (cases ?W)
    case False
    with first obtain k where
      "attempts st1 = attempts st @ replicate (Suc k) (HighLevel messages stop ?kw)"
      by (auto dest!: super_generate_requests)
    with after have "attempts (snd (generate w self st messages stop kwargs)) =
        attempts st @ HighLevel messages stop ?kw # replicate k (HighLevel messages stop ?kw) @ qs"
      by simp
    from first_attempt_append [OF this] False show ?thesis by simp
  next
    case True
    show ?thesis
    proof (cases "get_api_key w self")
      case None
      with True have "generate w self st messages stop kwargs = (Inl (Exception msg_no_api_key), st)"
        by (simp add: generate_def Let_def stream_flag direct_api_call_def config_error_class)
      with True None show ?thesis by (simp add: first_attempt_same)
    next
      case (Some api_key)
      with True first have
        "direct_api_call_stream w self st (to_api_messages messages) (request_headers api_key)
           (get_base_url self @ u ''/chat/completions'') = (r1, st1)"
        by (simp add: direct_api_call_def)
      from direct_api_call_stream_first [OF this] after obtain ps where
        "attempts (snd (generate w self st messages stop kwargs)) =
           attempts st @
           HttpPost \<lparr>url = get_base_url self @ u ''/chat/completions'',
                     headers = request_headers api_key,
                     payload = request_data self (to_api_messages messages) True,
                     timeout = request_timeout self, stream_body = True\<rparr> # ps"
        by auto
      from first_attempt_append [OF this] True Some show ?thesis by simp
    qed
  qed
qed


lemma map_of_pop_key_same: "map_of (pop_key k kw) k = None"
  by (induction kw) (auto simp: pop_key_def)

lemma map_of_pop_key_other: "k' \<noteq> k \<Longrightarrow> map_of (pop_key k kw) k' = map_of kw k'"
  by (induction kw) (auto simp: pop_key_def)

lemma pop_key_twice: "pop_key k (pop_key k' (pop_key k kw)) = pop_key k (pop_key k' kw)"
  by (induction kw) (auto simp: pop_key_def)

lemma stream_not_streaming: "u ''stream'' \<noteq> u ''streaming''"
  by (simp add: u_def)

lemma measurement_request_counting:
  "measurement_request self
     \<lparr>url = api_url, headers = hdrs, payload = counting_request self ms, timeout = t,
      stream_body = False\<rparr>"
  by (simp add: measurement_request_def counting_request_def u_def)

lemma adapter_requests_append:
  "adapter_requests (ps @ qs) = adapter_requests ps @ adapter_requests qs"
  by (induction ps rule: adapter_requests.induct) simp_all

lemma adapter_requests_high_level:
  "adapter_requests (replicate n (HighLevel ms stop kw)) = []"
  by (induction n) simp_all

lemma get_accurate_tokens_requests:
  "get_accurate_tokens_via_complete_conversation w self st om answer hdrs api_url t = (x, st') \<Longrightarrow>
   \<exists>ps. attempts st' = attempts st @ ps \<and>
        list_all (measurement_request self) (adapter_requests ps)"
  by (auto simp: get_accurate_tokens_via_complete_conversation_def requests_post_def Let_def
      measurement_request_counting
      split: sum.splits prod.splits bool.splits if_splits dest!: get_input_only_tokens_stateD)

lemma direct_api_call_requests:
  assumes "direct_api_call w self st messages True = (res, st')"
  shows "\<exists>ps. attempts st' = attempts st @ ps \<and>
     list_all (\<lambda>rq. streaming_request self messages rq \<or> measurement_request self rq)
       (adapter_requests ps)"
proof (cases "get_api_key w self")
  case None
  with assms show ?thesis by (simp add: direct_api_call_def)
next
  case (Some api_key)
  let ?p0 = "\<lparr>url = get_base_url self @ u ''/chat/completions'', headers = request_headers api_key,
       payload = request_data self (to_api_messages messages) True,
       timeout = request_timeout self, stream_body = True\<rparr>"
  let ?st1 = "st\<lparr>attempts := attempts st @ [HttpPost ?p0]\<rparr>"
  have p0: "streaming_request self messages ?p0"
    by (simp add: streaming_request_def)
  from assms Some have call:
    "direct_api_call_stream w self st (to_api_messages messages) (request_headers api_key)
       (get_base_url self @ u ''/chat/completions'') = (res, st')"
    by (simp add: direct_api_call_def)
  show ?thesis
  proof (cases "attempts st' = attempts ?st1")
    case True
    with p0 show ?thesis by simp
  next
    case False
    with call obtain answer x st2 where
      acc: "get_accurate_tokens_via_complete_conversation w self ?st1 (to_api_messages messages)
          answer (request_headers api_key) (get_base_url self @ u ''/chat/completions'')
          (request_timeout self) = (x, st2)"
      and st': "attempts st' = attempts st2"
      by (auto simp: direct_api_call_stream_def requests_post_def
          split: sum.splits prod.splits if_splits)
    from get_accurate_tokens_requests [OF acc] obtain ps where
      "attempts st2 = attempts ?st1 @ ps" "list_all (measurement_request self) (adapter_requests ps)"
      by blast
    with st' p0 have "attempts st' = attempts st @ HttpPost ?p0 # ps"
      "list_all (\<lambda>rq. streaming_request self messages rq \<or> measurement_request self rq)
         (adapter_requests (HttpPost ?p0 # ps))"
      by (auto simp: list_all_iff)
    then show ?thesis by blast
  qed
qed

lemma generate_requests:
  "\<exists>ps. attempts (snd (generate w self st messages stop kwargs)) = attempts st @ ps \<and>
        list_all (\<lambda>rq. streaming_request self messages rq \<or> measurement_request self rq)
          (adapter_requests ps)"
proof -
  define kw where "kw = pop_key (u ''analysis_type'') (pop_key (u ''session_id'') kwargs)"
  define W where "W \<longleftrightarrow> user_wants_streaming self \<or>
    (case map_of kw (u ''stream'') of Some (PBool b) \<Rightarrow> b | _ \<Rightarrow> False)"
  define ok where "ok = list_all (\<lambda>rq. streaming_request self messages rq \<or> measurement_request self rq)"
  have ok_append: "ok (adapter_requests (ps @ qs))" if "ok (adapter_requests ps)" "ok (adapter_requests qs)"
    for ps qs :: "'a attempt list"
    using that by (simp add: ok_def adapter_requests_append)
  have ok_high: "ok (adapter_requests (replicate n (HighLevel ms s k)))" for n ms s k
    by (simp add: ok_def adapter_requests_high_level)
  obtain r1 st1 where first:
    "(if W then direct_api_call w self st messages True else super_generate w self st messages stop kw)
       = (r1, st1)"
    by fastforce
  have "\<exists>ps1. attempts st1 = attempts st @ ps1 \<and> ok (adapter_requests ps1)"
  proof (cases W)
    case True
    with first direct_api_call_requests [of w self st messages r1 st1] show ?thesis
      by (simp add: ok_def)
  next
    case False
    with first super_generate_requests [of w self st messages stop kw r1 st1] ok_high show ?thesis
      by auto
  qed
  then obtain ps1 where ps1: "attempts st1 = attempts st @ ps1" "ok (adapter_requests ps1)"
    by blast
  have "\<exists>ps. attempts (snd (generate w self st messages stop kwargs)) = attempts st @ ps \<and>
        ok (adapter_requests ps)"
  proof (cases r1)
    case (Inr result)
    with first have "attempts (snd (generate w self st messages stop kwargs)) = attempts st1"
      by (simp add: generate_def Let_def kw_def [symmetric] W_def [symmetric] track_tokens_attempts)
    with ps1 show ?thesis by auto
  next
    case (Inl e)
    show ?thesis
    proof (cases "token_parse_error e")
      case True
      obtain r2 st2 where retry:
        "super_generate w self st1 (map clean_for_retry messages) stop kw = (r2, st2)"
        by fastforce
      from super_generate_requests [OF retry] ps1(1) obtain k where
        two: "attempts st2 = attempts st @ ps1 @
          replicate (Suc k) (HighLevel (map clean_for_retry messages) stop kw)"
        by auto
      have ok2: "ok (adapter_requests
          (ps1 @ replicate (Suc k) (HighLevel (map clean_for_retry messages) stop kw)))"
        by (intro ok_append ps1 ok_high)
      obtain r3 st3 where direct: "direct_api_call w self st2 messages True = (r3, st3)"
        by fastforce
      from direct_api_call_requests [OF direct] two obtain ps3 where
        ps3: "attempts st3 = attempts st @
            (ps1 @ replicate (Suc k) (HighLevel (map clean_for_retry messages) stop kw)) @ ps3"
          "ok (adapter_requests ps3)"
        by (auto simp: ok_def)
      have "attempts (snd (generate w self st messages stop kwargs)) = attempts st2 \<or>
            attempts (snd (generate w self st messages stop kwargs)) = attempts st3"
        using first Inl True retry direct
        by (auto simp: generate_def Let_def kw_def [symmetric] W_def [symmetric]
            track_tokens_attempts split: sum.splits)
      with two ok2 ps3 ok_append [OF ok2 ps3(2)] show ?thesis
        by metis
    next
      case False
      obtain r3 st3 where direct: "direct_api_call w self st1 messages True = (r3, st3)"
        by fastforce
      from direct_api_call_requests [OF direct] ps1(1) obtain ps3 where
        ps3: "attempts st3 = attempts st @ ps1 @ ps3" "ok (adapter_requests ps3)"
        by (auto simp: ok_def)
      have "attempts (snd (generate w self st messages stop kwargs)) = attempts st1 \<or>
            attempts (snd (generate w self st messages stop kwargs)) = attempts st3"
        using first Inl False direct
        by (auto simp: generate_def Let_def kw_def [symmetric] W_def [symmetric]
            track_tokens_attempts split: sum.splits)
      with ps1 ps3 ok_append [OF ps1(2) ps3(2)] show ?thesis
        by metis
    qed
  qed
  then show ?thesis by (simp add: ok_def)
qed

text \<open>
  The claim has the resolved value alone decide whether the streaming path is taken.
  An adapter built without either flag resolves to false; when its call of the
  high-level path fails with a server error, its next request is the streaming request
  of the direct path all the same.
\<close>

theorem fallback_streams_counterexample:
  "user_wants_streaming (sample_adapter None []) = False \<and>
   attempts (snd (generate server_error_world (sample_adapter None []) initial_state
     sample_messages None [])) =
   [HighLevel sample_messages None [],
    HttpPost
      \<lparr>url = u ''http://upstream/v1/chat/completions'',
       headers = [(u ''Content-Type'', u ''application/json''),
                  (u ''Authorization'', u ''Bearer sk-demo'')],
       payload = [(u ''model'', RStr (u ''demo-model'')),
                  (u ''messages'', RMessages [\<lparr>role = u ''user'', content = u ''hi''\<rparr>]),
                  (u ''temperature'', RNum (1 / 10)), (u ''stream'', RBool True),
                  (u ''max_tokens'', RInt 2000)],
       timeout = 120, stream_body = True\<rparr>]"
  by (simp add: run_defs request_data_def request_headers_def to_api_messages_def
      model_or_name_def sample_text_clean translate_requests_error.simps msg_connection_def
      sublist_Cons_right py_lower_def u_def)

text \<open>
  \<^bold>\<open>C7\<close> (as amended).  The two flags given at construction are resolved to the one
  truth value \<^verbatim>\<open>user_wants_streaming\<close>: it is true exactly when \<^verbatim>\<open>streaming\<close> is
  given as true or \<^verbatim>\<open>stream\<close> is given as the truth value true, so true wins where
  the two disagree.  At generation time that value, which a keyword \<^verbatim>\<open>stream\<close> that
  is the truth value true also switches on, decides the first attempt: if it holds, the
  first attempt is the streaming request of the direct path (none at all without an API
  key), otherwise it is the call of the high-level path.  It does not decide the
  requests after a failure: whatever the flags, every request that the adapter itself
  sends during the call is the streaming request of the direct path, whose body has
  \<^verbatim>\<open>stream\<close> true, or a measurement request.
\<close>

theorem streaming_flags_resolved:
  "user_wants_streaming (init model api_key base_url temp max_toks sid streaming_kw kwargs phm) =
     (streaming_kw = Some True \<or> map_of kwargs (u ''stream'') = Some (PBool True)) \<and>
   first_attempt st (snd (generate w self st messages stop call_kwargs)) =
     (if user_wants_streaming self \<or>
         map_of (pop_key (u ''analysis_type'') (pop_key (u ''session_id'') call_kwargs))
           (u ''stream'') = Some (PBool True)
      then (case get_api_key w self of
              None \<Rightarrow> None
            | Some api_key \<Rightarrow>
                Some (HttpPost
                        \<lparr>url = get_base_url self @ u ''/chat/completions'',
                         headers = request_headers api_key,
                         payload = request_data self (to_api_messages messages) True,
                         timeout = request_timeout self, stream_body = True\<rparr>))
      else Some (HighLevel messages stop
                   (pop_key (u ''analysis_type'') (pop_key (u ''session_id'') call_kwargs)))) \<and>
   map_of (request_data self api_messages stream) (u ''stream'') = Some (RBool stream) \<and>
   (\<exists>ps. attempts (snd (generate w self st messages stop call_kwargs)) = attempts st @ ps \<and>
         list_all (\<lambda>rq. streaming_request self messages rq \<or> measurement_request self rq)
           (adapter_requests ps))"
proof (intro conjI)
  show "user_wants_streaming (init model api_key base_url temp max_toks sid streaming_kw kwargs phm) =
     (streaming_kw = Some True \<or> map_of kwargs (u ''stream'') = Some (PBool True))"
    by (auto simp: init_def Let_def split: option.splits optval.splits)
  show "map_of (request_data self api_messages stream) (u ''stream'') = Some (RBool stream)"
    by (simp add: request_data_def u_def)
qed (rule generate_first_attempt generate_requests)+

theorem streaming_flags_resolved_witness:
  "user_wants_streaming (sample_adapter (Some False) [(u ''stream'', PBool True)]) = True \<and>
   user_wants_streaming (sample_adapter (Some True) [(u ''stream'', PBool False)]) = True \<and>
   user_wants_streaming (sample_adapter (Some False) [(u ''stream'', PBool False)]) = False \<and>
   first_attempt initial_state
     (snd (generate server_error_world (sample_adapter None []) initial_state
             sample_messages None [])) = Some (HighLevel sample_messages None []) \<and>
   map_of (request_data (sample_adapter None []) [] True) (u ''stream'') = Some (RBool True)"
  using streaming_flags_resolved
    [where model = "u ''demo-model''" and api_key = "Some (u ''sk-demo'')"
       and base_url = "u ''http://upstream/v1''" and temp = "1 / 10" and max_toks = "Some 2000"
       and sid = None and phm = False and streaming_kw = "Some False"
       and kwargs = "[(u ''stream'', PBool True) :: ustr \<times> nat optval]"
       and self = "sample_adapter None []" and st = initial_state and w = server_error_world
       and messages = sample_messages and stop = None and call_kwargs = "[]"
       and api_messages = "[]" and stream = True]
  by (simp add: sample_adapter_def init_def Let_def pop_key_def u_def)

text \<open>
  The claim has the non-boolean value discarded at generation time as well.  There the
  value only fails to switch streaming on: it stays among the options handed to the
  high-level path.
\<close>

theorem non_boolean_stream_counterexample:
  "attempts (snd (generate plain_world (sample_adapter None []) initial_state sample_messages None
     [(u ''stream'', PObj 7)])) = [HighLevel sample_messages None [(u ''stream'', PObj 7)]]"
  by (simp add: run_defs track_tokens_attempts u_def)

text \<open>
  \<^bold>\<open>C10\<close> (as amended).  At construction a \<^verbatim>\<open>stream\<close> option that is not a
  \<^verbatim>\<open>bool\<close> counts as the default \<^verbatim>\<open>False\<close> and is removed: the adapter is the
  one built without the option, and it streams only if \<^verbatim>\<open>streaming\<close> says so.  At
  generation time such a value does not switch streaming on, so the adapter's own
  setting decides the path; on the non-streaming path the options, the value among them,
  go to the high-level call unchanged.
\<close>

theorem non_boolean_stream_flag:
  "(map_of kwargs (u ''stream'') = Some (PObj x) \<longrightarrow>
      init model api_key base_url temp max_toks sid streaming_kw kwargs phm =
        init model api_key base_url temp max_toks sid streaming_kw (pop_key (u ''stream'') kwargs) phm \<and>
      user_stream_setting (init model api_key base_url temp max_toks sid streaming_kw kwargs phm) =
        False \<and>
      user_wants_streaming (init model api_key base_url temp max_toks sid streaming_kw kwargs phm) =
        (streaming_kw = Some True) \<and>
      map_of (parent_kwargs (init model api_key base_url temp max_toks sid streaming_kw kwargs phm))
        (u ''stream'') = None) \<and>
   (map_of (pop_key (u ''analysis_type'') (pop_key (u ''session_id'') call_kwargs)) (u ''stream'') =
      Some (PObj y) \<longrightarrow>
      first_attempt st (snd (generate w self st messages stop call_kwargs)) =
        (if user_wants_streaming self
         then (case get_api_key w self of
                 None \<Rightarrow> None
               | Some api_key \<Rightarrow>
                   Some (HttpPost
                           \<lparr>url = get_base_url self @ u ''/chat/completions'',
                            headers = request_headers api_key,
                            payload = request_data self (to_api_messages messages) True,
                            timeout = request_timeout self, stream_body = True\<rparr>))
         else Some (HighLevel messages stop
                      (pop_key (u ''analysis_type'') (pop_key (u ''session_id'') call_kwargs)))))"
proof (intro conjI impI)
  assume nb: "map_of kwargs (u ''stream'') = Some (PObj x)"
  have popped: "pop_key (u ''stream'') (pop_key (u ''streaming'') (pop_key (u ''stream'') kwargs)) =
      pop_key (u ''stream'') (pop_key (u ''streaming'') kwargs)"
    by (rule pop_key_twice)
  from nb show "init model api_key base_url temp max_toks sid streaming_kw kwargs phm =
        init model api_key base_url temp max_toks sid streaming_kw (pop_key (u ''stream'') kwargs) phm"
    by (simp add: init_def Let_def map_of_pop_key_same popped)
  from nb show "user_stream_setting
        (init model api_key base_url temp max_toks sid streaming_kw kwargs phm) = False"
    by (simp add: init_def Let_def)
  from nb show "user_wants_streaming
        (init model api_key base_url temp max_toks sid streaming_kw kwargs phm) =
        (streaming_kw = Some True)"
    by (auto simp: init_def Let_def split: option.splits)
  show "map_of (parent_kwargs (init model api_key base_url temp max_toks sid streaming_kw kwargs phm))
        (u ''stream'') = None"
    by (simp add: init_def Let_def map_of_pop_key_same)
next
  assume "map_of (pop_key (u ''analysis_type'') (pop_key (u ''session_id'') call_kwargs))
      (u ''stream'') = Some (PObj y)"
  then show "first_attempt st (snd (generate w self st messages stop call_kwargs)) =
        (if user_wants_streaming self
         then (case get_api_key w self of
                 None \<Rightarrow> None
               | Some api_key \<Rightarrow>
                   Some (HttpPost
                           \<lparr>url = get_base_url self @ u ''/chat/completions'',
                            headers = request_headers api_key,
                            payload = request_data self (to_api_messages messages) True,
                            timeout = request_timeout self, stream_body = True\<rparr>))
         else Some (HighLevel messages stop
                      (pop_key (u ''analysis_type'') (pop_key (u ''session_id'') call_kwargs))))"
    by (simp add: generate_first_attempt)
qed

theorem non_boolean_stream_flag_witness:
  "user_stream_setting (sample_adapter (Some True) [(u ''stream'', PObj 3)]) = False \<and>
   user_wants_streaming (sample_adapter (Some True) [(u ''stream'', PObj 3)]) = True \<and>
   first_attempt initial_state
     (snd (generate unreachable_world (sample_adapter None [(u ''stream'', PObj 3)]) initial_state
             sample_messages None [(u ''stream'', PObj 3)])) =
     Some (HighLevel sample_messages None [(u ''stream'', PObj 3)])"
  using non_boolean_stream_flag
    [where kwargs = "[(u ''stream'', PObj 3)]" and x = 3 and y = 3
       and call_kwargs = "[(u ''stream'', PObj 3)]" and streaming_kw = "Some True"
       and model = "u ''demo-model''" and api_key = "Some (u ''sk-demo'')"
       and base_url = "u ''http://upstream/v1''" and temp = "1 / 10" and max_toks = "Some 2000"
       and sid = None and phm = False
       and self = "sample_adapter None [(u ''stream'', PObj 3)]" and st = initial_state
       and w = unreachable_world and messages = sample_messages and stop = None]
  by (simp add: sample_adapter_def init_def Let_def pop_key_def u_def)

subsection \<open>Caller options\<close>

text \<open>
  The claim has the caller's options reach the outbound request on each path.  A
  streaming call with the option \<^verbatim>\<open>top_p\<close> and a stop sequence sends one request,
  whose body has the keys \<^verbatim>\<open>model\<close>, \<^verbatim>\<open>messages\<close>, \<^verbatim>\<open>temperature\<close>,
  \<^verbatim>\<open>stream\<close> and \<^verbatim>\<open>max_tokens\<close> only.
\<close>

theorem direct_path_options_counterexample:
  "map (\<lambda>a. case a of HttpPost rq \<Rightarrow> map fst (payload rq) | HighLevel ms s kw \<Rightarrow> [])
     (attempts (snd (generate unreachable_world (sample_adapter (Some True) []) initial_state
        sample_messages (Some [u ''END'']) [(u ''top_p'', PObj 9)]))) =
   [[u ''model'', u ''messages'', u ''temperature'', u ''stream'', u ''max_tokens'']]"
  by (simp add: run_defs request_data_def translate_requests_error.simps msg_connection_def
      sublist_Cons_right py_lower_def u_def)

text \<open>
  \<^bold>\<open>C9\<close> (as amended).  The two filtering functions return their argument, and no
  allow-list is applied.  On the non-streaming path the first attempt is the call of the
  high-level path with the caller's messages, stop sequences and all keyword options
  except the two bookkeeping ones, \<^verbatim>\<open>session_id\<close> and \<^verbatim>\<open>analysis_type\<close>.  The
  body of a request of the direct path is built from the adapter's own model,
  temperature and token limit and the messages: it has no other key.
\<close>

theorem options_pass_through:
  "filter_safe_kwargs kwargs = kwargs \<and>
   filter_model_kwargs kwargs = kwargs \<and>
   (\<not> user_wants_streaming self \<and>
    map_of (pop_key (u ''analysis_type'') (pop_key (u ''session_id'') kwargs)) (u ''stream'') \<noteq>
      Some (PBool True) \<longrightarrow>
    first_attempt st (snd (generate w self st messages stop kwargs)) =
      Some (HighLevel messages stop
              (pop_key (u ''analysis_type'') (pop_key (u ''session_id'') kwargs)))) \<and>
   map fst (request_data self api_messages stream) =
     [u ''model'', u ''messages'', u ''temperature'', u ''stream''] @
     (case max_tokens self of
        Some n \<Rightarrow> if 0 < n then [u ''max_tokens''] else []
      | None \<Rightarrow> [])"
  by (simp add: filter_safe_kwargs_def filter_model_kwargs_def generate_first_attempt
      request_data_def split: option.splits)

theorem options_pass_through_witness:
  "first_attempt initial_state
     (snd (generate plain_world (sample_adapter None []) initial_state sample_messages
             (Some [u ''END'']) [(u ''top_p'', PObj 9), (u ''session_id'', PObj 1)])) =
   Some (HighLevel sample_messages (Some [u ''END'']) [(u ''top_p'', PObj 9)])"
  using options_pass_through
    [where self = "sample_adapter None []" and st = initial_state and w = plain_world
       and messages = sample_messages and stop = "Some [u ''END'']"
       and kwargs = "[(u ''top_p'', PObj 9), (u ''session_id'', PObj 1)]"]
  by (simp add: sample_adapter_def init_def Let_def pop_key_def u_def)

subsection \<open>Retry after malformed input\<close>

lemma light_keeps_markup:
  "msg_content (clean_for_retry \<lparr>msg_type = u ''human'', msg_role = None, msg_content = u ''**hi**''\<rparr>)
     = u ''**hi**''"
  by (simp add: clean_for_retry_def clean_message_content_def remove_char_def replace_char_def
      is_newline_def is_blank_def py_strip_def py_isspace_def max_length_def u_def)

lemma aggressive_drops_markup:
  "aggressive_clean_content (u ''user'') (u ''**hi**'') = u ''hi''"
  by (simp add: aggressive_clean_content_def safe_char_def is_stop_mark_def is_comma_mark_def
      py_strip_def py_isspace_def u_def)

lemma padded_text_clean: "clean_message_content [32, 32, 104, 105, 32, 32] = [104, 105]"
  by (simp add: clean_message_content_def remove_char_def replace_char_def is_newline_def
      is_blank_def py_strip_def py_isspace_def max_length_def)

text \<open>
  The claim has the retry use the aggressive cleaning and a second malformed-input
  failure end the call.  The retry's messages are cleaned lightly (a bold marker stays,
  which the aggressive cleaning removes), and on an upstream whose high-level path
  reports malformed input both times the call goes on to the direct path and returns
  the streamed answer.
\<close>

theorem second_malformed_input_counterexample:
  "high_level_answer (replay_world 2) 0 = Inl parse_failure \<and>
   high_level_answer (replay_world 2) 1 = Inl parse_failure \<and>
   fst (generate (replay_world 2) (sample_adapter None []) initial_state sample_messages None []) =
     Inr \<lparr>result_content = Text (u ''AB''), llm_output = JNull\<rparr> \<and>
   msg_content (clean_for_retry
     \<lparr>msg_type = u ''human'', msg_role = None, msg_content = u ''**hi**''\<rparr>) = u ''**hi**'' \<and>
   aggressive_clean_content (u ''user'') (u ''**hi**'') = u ''hi''"
  using light_keeps_markup aggressive_drops_markup
  by (simp add: run_defs sample_lines_decoded u_def sublist_Cons_right)

text \<open>
  \<^bold>\<open>C2\<close> (as amended).  When the first attempt of a call, the call of the high-level
  path or, for a streaming request, the streaming request of the direct path, fails
  with the malformed-input error, every message is rebuilt with its content cleaned by
  the light cleaning and the high-level path is called once with these messages.  If
  that call succeeds its answer is returned; if it fails, with whatever error, the call
  goes on with the streaming direct call on the original messages and returns what
  that returns or raises.  After the one retry only requests of the direct path
  follow, at most three: the high-level path is not called again.
\<close>

theorem malformed_input_retry:
  assumes first:
      "(if user_wants_streaming self \<or>
           map_of (pop_key (u ''analysis_type'') (pop_key (u ''session_id'') kwargs)) (u ''stream'') =
             Some (PBool True)
        then direct_api_call w self st messages True
        else super_generate w self st messages stop
               (pop_key (u ''analysis_type'') (pop_key (u ''session_id'') kwargs))) = (Inl e, st1)"
    and parse: "token_parse_error e"
  shows
    "(let kw = pop_key (u ''analysis_type'') (pop_key (u ''session_id'') kwargs);
          cleaned =
            map (\<lambda>msg. \<lparr>msg_type = (if msg_type msg = u ''human'' then u ''human'' else u ''ai''),
                        msg_role = None,
                        msg_content = clean_message_content (msg_content msg)\<rparr>) messages;
          k = min (high_level_retries w (length (attempts st1))) (max_retries self);
          st2 = st1\<lparr>attempts := attempts st1 @ replicate (Suc k) (HighLevel cleaned stop kw)\<rparr>
      in generate w self st messages stop kwargs =
           (case high_level_answer w (length (attempts st1)) of
              Inr result \<Rightarrow> (Inr result, track_tokens w st2 messages result)
            | Inl retry_error \<Rightarrow>
                (case direct_api_call w self st2 messages True of
                   (Inr result, st3) \<Rightarrow> (Inr result, track_tokens w st3 messages result)
                 | (Inl direct_error, st3) \<Rightarrow> (Inl direct_error, st3))) \<and>
         (\<exists>ps. attempts (snd (generate w self st messages stop kwargs)) = attempts st2 @ ps \<and>
               list_all is_post ps \<and> length ps \<le> 3))"
proof -
  define kw where "kw = pop_key (u ''analysis_type'') (pop_key (u ''session_id'') kwargs)"
  define cleaned where "cleaned =
     map (\<lambda>msg. \<lparr>msg_type = (if msg_type msg = u ''human'' then u ''human'' else u ''ai''),
                 msg_role = None,
                 msg_content = clean_message_content (msg_content msg)\<rparr>) messages"
  define k where "k = min (high_level_retries w (length (attempts st1))) (max_retries self)"
  define st2 where
    "st2 = st1\<lparr>attempts := attempts st1 @ replicate (Suc k) (HighLevel cleaned stop kw)\<rparr>"
  have cleaned: "map clean_for_retry messages = cleaned"
    by (simp add: cleaned_def clean_for_retry_def)
  have retry: "super_generate w self st1 cleaned stop kw =
      (case high_level_answer w (length (attempts st1)) of
         Inl m \<Rightarrow> Inl (Exception m)
       | Inr result \<Rightarrow> Inr result, st2)"
    by (simp add: super_generate_def st2_def k_def)
  have flow: "generate w self st messages stop kwargs =
      (case high_level_answer w (length (attempts st1)) of
         Inr result \<Rightarrow> (Inr result, track_tokens w st2 messages result)
       | Inl retry_error \<Rightarrow>
           (case direct_api_call w self st2 messages True of
              (Inr result, st3) \<Rightarrow> (Inr result, track_tokens w st3 messages result)
            | (Inl direct_error, st3) \<Rightarrow> (Inl direct_error, st3)))"
  proof -
    define W where "W \<longleftrightarrow> user_wants_streaming self \<or>
      (case map_of kw (u ''stream'') of Some (PBool b) \<Rightarrow> b | _ \<Rightarrow> False)"
    from first have "(if W then direct_api_call w self st messages True
        else super_generate w self st messages stop kw) = (Inl e, st1)"
      unfolding W_def kw_def stream_flag .
    with parse show ?thesis
      by (simp add: generate_def Let_def kw_def [symmetric] W_def [symmetric] cleaned retry
          split: sum.splits)
  qed
  have "\<exists>ps. attempts (snd (generate w self st messages stop kwargs)) = attempts st2 @ ps \<and>
          list_all is_post ps \<and> length ps \<le> 3"
  proof (cases "high_level_answer w (length (attempts st1))")
    case (Inr result)
    with flow show ?thesis by (simp add: track_tokens_attempts)
  next
    case (Inl retry_error)
    obtain r3 st3 where direct: "direct_api_call w self st2 messages True = (r3, st3)"
      by fastforce
    from direct_api_call_state [OF direct] obtain ps where
      "attempts st3 = attempts st2 @ ps" "list_all is_post ps" "length ps \<le> 3"
      by blast
    with flow Inl direct show ?thesis
      by (cases r3) (simp_all add: track_tokens_attempts)
  qed
  with flow show ?thesis
    unfolding Let_def kw_def cleaned_def k_def st2_def by simp
qed

theorem malformed_input_retry_witness:
  "attempts (snd (generate (replay_world 2) (sample_adapter None []) initial_state
      padded_messages None [])) =
     [HighLevel padded_messages None [], HighLevel sample_messages None []] @
     drop 2 (attempts (snd (generate (replay_world 2) (sample_adapter None []) initial_state
       padded_messages None []))) \<and>
   map is_post (attempts (snd (generate (replay_world 2) (sample_adapter None []) initial_state
      padded_messages None []))) = [False, False, True, True, True] \<and>
   fst (generate (replay_world 2) (sample_adapter None []) initial_state padded_messages None []) =
     Inr \<lparr>result_content = Text (u ''AB''), llm_output = JNull\<rparr> \<and>
   map is_post (attempts (snd (generate refusing_world (sample_adapter (Some True) []) initial_state
      sample_messages None []))) = [True, False, True, True, True] \<and>
   fst (generate refusing_world (sample_adapter (Some True) []) initial_state sample_messages None []) =
     Inr \<lparr>result_content = Text (u ''AB''), llm_output = JNull\<rparr>"
proof -
  let ?plain = "sample_adapter None [] :: nat adapter"
  let ?streaming = "sample_adapter (Some True) [] :: nat adapter"
  let ?p0 = "\<lparr>url = u ''http://upstream/v1'' @ u ''/chat/completions'',
       headers = request_headers (u ''sk-demo''),
       payload = request_data ?streaming (to_api_messages sample_messages) True,
       timeout = 120, stream_body = True\<rparr>"
  have first_plain:
    "(if user_wants_streaming ?plain \<or>
         map_of (pop_key (u ''analysis_type'') (pop_key (u ''session_id'') ([] :: nat kwargs)))
           (u ''stream'') = Some (PBool True)
      then direct_api_call (replay_world 2) ?plain initial_state padded_messages True
      else super_generate (replay_world 2) ?plain initial_state padded_messages None
             (pop_key (u ''analysis_type'') (pop_key (u ''session_id'') []))) =
     (Inl (Exception parse_failure),
      initial_state\<lparr>attempts := [HighLevel padded_messages None []]\<rparr>)"
    by (simp add: sample_adapter_def init_def Let_def pop_key_def super_generate_def
        replay_world_def upstream_def initial_state_def)
  have first_streaming:
    "(if user_wants_streaming ?streaming \<or>
         map_of (pop_key (u ''analysis_type'') (pop_key (u ''session_id'') ([] :: nat kwargs)))
           (u ''stream'') = Some (PBool True)
      then direct_api_call refusing_world ?streaming initial_state sample_messages True
      else super_generate refusing_world ?streaming initial_state sample_messages None
             (pop_key (u ''analysis_type'') (pop_key (u ''session_id'') []))) =
     (Inl (Exception (msg_call_failed 400 parse_failure)),
      initial_state\<lparr>attempts := [HttpPost ?p0]\<rparr>)"
    by (simp add: sample_adapter_def init_def Let_def direct_api_call_def
        direct_api_call_stream_def requests_post_def get_api_key_def get_base_url_def
        refusing_world_def upstream_def error_response_def initial_state_def u_def)
  have parse_streaming: "token_parse_error (Exception (msg_call_failed 400 parse_failure))"
    by (simp add: token_parse_error_def is_token_parse_text_def msg_call_failed_def
        parse_failure_def show_nat.simps u_def sublist_Cons_right)
  have cleaned: "map (\<lambda>msg. \<lparr>msg_type = (if msg_type msg = u ''human'' then u ''human'' else u ''ai''),
        msg_role = None, msg_content = clean_message_content (msg_content msg)\<rparr>) padded_messages =
      sample_messages"
    by (simp add: padded_messages_def sample_messages_def padded_text_clean u_def)
  from malformed_input_retry [OF first_plain parse_failure_class(1)]
  have plain: "attempts (snd (generate (replay_world 2) ?plain initial_state padded_messages None [])) =
     [HighLevel padded_messages None [], HighLevel sample_messages None []] @
     drop 2 (attempts (snd (generate (replay_world 2) ?plain initial_state padded_messages None [])))"
    by (auto simp: Let_def cleaned pop_key_def replay_world_def upstream_def initial_state_def)
  from malformed_input_retry [OF first_streaming parse_streaming]
  have streaming: "\<exists>ps. attempts (snd (generate refusing_world ?streaming initial_state
      sample_messages None [])) = HttpPost ?p0 # HighLevel sample_messages None [] # ps \<and>
      list_all is_post ps"
    by (auto simp: Let_def pop_key_def refusing_world_def upstream_def initial_state_def
        sample_messages_def sample_text_clean u_def)
  have runs:
    "map is_post (attempts (snd (generate (replay_world 2) ?plain initial_state
        padded_messages None []))) = [False, False, True, True, True]"
    "fst (generate (replay_world 2) ?plain initial_state padded_messages None []) =
       Inr \<lparr>result_content = Text (u ''AB''), llm_output = JNull\<rparr>"
    "map is_post (attempts (snd (generate refusing_world ?streaming initial_state
        sample_messages None []))) = [True, False, True, True, True]"
    "fst (generate refusing_world ?streaming initial_state sample_messages None []) =
       Inr \<lparr>result_content = Text (u ''AB''), llm_output = JNull\<rparr>"
    by (simp_all add: run_defs sample_lines_decoded track_tokens_attempts msg_call_failed_def
        show_nat.simps u_def sublist_Cons_right)
  from plain streaming runs show ?thesis
    by simp
qed

end
